theory Spec2Isabelle
  imports Complex_Main
begin

section \<open>NumPy floating-point values\<close>

text \<open>
  Both source files compute on NumPy \<open>float64\<close> arrays. Finite floats are idealised as
  real numbers (no rounding, no overflow); what is kept of IEEE arithmetic is what decides
  control flow in the code: a division by zero does not raise in NumPy, it yields an
  infinity or a NaN, and every ordering comparison with a NaN is false.
\<close>

datatype npfloat = Fin real | PInf | NInf | NaN

fun np_neg :: "npfloat \<Rightarrow> npfloat" where
  "np_neg (Fin a) = Fin (- a)"
| "np_neg PInf = NInf"
| "np_neg NInf = PInf"
| "np_neg NaN = NaN"

fun np_add :: "npfloat \<Rightarrow> npfloat \<Rightarrow> npfloat" where
  "np_add (Fin a) (Fin b) = Fin (a + b)"
| "np_add NaN _ = NaN"
| "np_add _ NaN = NaN"
| "np_add PInf NInf = NaN"
| "np_add NInf PInf = NaN"
| "np_add PInf _ = PInf"
| "np_add _ PInf = PInf"
| "np_add NInf _ = NInf"
| "np_add _ NInf = NInf"

definition np_sub :: "npfloat \<Rightarrow> npfloat \<Rightarrow> npfloat" where
  "np_sub a b = np_add a (np_neg b)"

definition signed_inf :: "real \<Rightarrow> npfloat" where
  "signed_inf s = (if s > 0 then PInf else if s < 0 then NInf else NaN)"

fun np_sign :: "npfloat \<Rightarrow> real" where
  "np_sign (Fin a) = sgn a"
| "np_sign PInf = 1"
| "np_sign NInf = - 1"
| "np_sign NaN = 0"

text \<open>A product with an infinite factor is an infinity of the product's sign, and
  \<open>inf * 0\<close> is NaN.\<close>

fun np_mul :: "npfloat \<Rightarrow> npfloat \<Rightarrow> npfloat" where
  "np_mul (Fin a) (Fin b) = Fin (a * b)"
| "np_mul NaN _ = NaN"
| "np_mul _ NaN = NaN"
| "np_mul a b = signed_inf (np_sign a * np_sign b)"

text \<open>Division: \<open>x / 0\<close> is an infinity of the sign of \<open>x\<close> and \<open>0 / 0\<close> is NaN. The only
  zero divisors in the sources are a norm and an element count, so the zero is \<open>+0.0\<close>.\<close>

fun np_div :: "npfloat \<Rightarrow> npfloat \<Rightarrow> npfloat" where
  "np_div (Fin a) (Fin b) = (if b = 0 then signed_inf a else Fin (a / b))"
| "np_div NaN _ = NaN"
| "np_div _ NaN = NaN"
| "np_div (Fin a) _ = Fin 0"
| "np_div a (Fin b) = signed_inf (np_sign a * (if b < 0 then - 1 else 1))"
| "np_div _ _ = NaN"

fun np_less :: "npfloat \<Rightarrow> npfloat \<Rightarrow> bool" where
  "np_less (Fin a) (Fin b) = (a < b)"
| "np_less NaN _ = False"
| "np_less _ NaN = False"
| "np_less NInf b = (b \<noteq> NInf)"
| "np_less a PInf = (a \<noteq> PInf)"
| "np_less _ _ = False"

fun np_le :: "npfloat \<Rightarrow> npfloat \<Rightarrow> bool" where
  "np_le (Fin a) (Fin b) = (a \<le> b)"
| "np_le NaN _ = False"
| "np_le _ NaN = False"
| "np_le NInf _ = True"
| "np_le _ PInf = True"
| "np_le _ _ = False"

datatype error = IndexError | ValueError | AttributeError | UnboundLocalError

section \<open>hole\_combine.py\<close>

subsection \<open>Spherical caps\<close>

text \<open>\<open>spherical_cap_volume(radius, height) = np.pi*(height**2)*(3*radius - height)/3.\<close>\<close>

definition spherical_cap_volume :: "real \<Rightarrow> npfloat \<Rightarrow> npfloat" where
  "spherical_cap_volume radius height =
     np_div (np_mul (np_mul (Fin pi) (np_mul height height))
                    (np_sub (Fin (3 * radius)) height))
            (Fin 3)"

text \<open>\<open>cap_height(R, r, d) = (r - R + d)*(r + R - d)/(2*d)\<close>, on arrays: no guard on \<open>d\<close>.\<close>

definition cap_height :: "real \<Rightarrow> real \<Rightarrow> real \<Rightarrow> npfloat" where
  "cap_height R r d = np_div (Fin ((r - R + d) * (r + R - d))) (Fin (2 * d))"

subsection \<open>The table of spheres\<close>

text \<open>A row of the table: the columns \<open>x\<close>, \<open>y\<close>, \<open>z\<close> (the centre) and \<open>radius\<close>.\<close>

record sphere =
  cx :: real
  cy :: real
  cz :: real
  radius :: real

text \<open>
  Modelled from the spec: \<open>to_vector\<close> and \<open>to_array\<close> of \<open>table_functions\<close>, a module that
  is not among the sources. They extract the centre coordinates of a row and of a table;
  \<open>np.linalg.norm(maximal_spheres_coordinates[0] - sphere_i_coordinates, axis=1)\<close> is then
  the Euclidean distance from the centre of sphere \<open>i\<close> to the centre of each maximal sphere.
\<close>

definition separation :: "sphere \<Rightarrow> sphere \<Rightarrow> real" where
  "separation m s = sqrt ((cx m - cx s)\<^sup>2 + (cy m - cy s)\<^sup>2 + (cz m - cz s)\<^sup>2)"

text \<open>The overlap volume of lines 132--137 and 240--244: the two caps added.\<close>

definition overlap_volume :: "real \<Rightarrow> real \<Rightarrow> real \<Rightarrow> npfloat" where
  "overlap_volume sphere_i_radius R d =
     np_add (spherical_cap_volume sphere_i_radius (cap_height sphere_i_radius R d))
            (spherical_cap_volume R (cap_height R sphere_i_radius d))"

definition sphere_volume :: "real \<Rightarrow> real" where
  "sphere_volume r = (4 / 3) * pi * r ^ 3"

subsection \<open>Phase 1: the maximal spheres\<close>

text \<open>
  One pass of the loop \<open>for i in range(1, N_large_spheres)\<close>. The state is
  \<open>(N_voids, maximal_spheres_indices)\<close>; the pairs \<open>(R, d)\<close> are the radius of a maximal
  sphere and its separation from sphere \<open>i\<close>.
\<close>

definition phase1_step :: "sphere list \<Rightarrow> real \<Rightarrow> nat \<Rightarrow> nat \<times> nat list \<Rightarrow> nat \<times> nat list" where
  "phase1_step tbl fr i st =
     (case st of (N_voids, ms) \<Rightarrow>
        let sphere_i_radius = radius (tbl ! i);
            maximal = map (\<lambda>m. (radius (tbl ! m), separation (tbl ! m) (tbl ! i))) ms
        in if list_ex (\<lambda>(R, d). R - sphere_i_radius > d) maximal then st
           else
             let overlapping = filter (\<lambda>(R, d). d \<le> sphere_i_radius + R) maximal
             in if overlapping \<noteq> [] then
                  let vols = map (\<lambda>(R, d). overlap_volume sphere_i_radius R d) overlapping;
                      volume_i = sphere_volume sphere_i_radius
                  in if list_all (\<lambda>v. np_le v (Fin (fr * volume_i))) vols
                     then (N_voids + 1, ms @ [i])
                     else st
                else (N_voids + 1, ms @ [i]))"

definition N_large_spheres :: "sphere list \<Rightarrow> nat" where
  "N_large_spheres tbl = length (filter (\<lambda>s. radius s > 10) tbl)"

definition phase1 :: "sphere list \<Rightarrow> real \<Rightarrow> nat \<times> nat list" where
  "phase1 tbl fr = fold (phase1_step tbl fr) [1..<N_large_spheres tbl] (1, [0])"

definition maximal_spheres_indices :: "sphere list \<Rightarrow> real \<Rightarrow> nat list" where
  "maximal_spheres_indices tbl fr = snd (phase1 tbl fr)"

subsection \<open>Phase 2: the holes\<close>

record phase2_state =
  flag_col :: "int list"
  holes_indices :: "nat list"
  N_holes :: nat

text \<open>
  \<open>spheres_table['flag'][i] = a\<close> with \<open>a\<close> an array taken by a mask: NumPy stores the
  element of an array of size one and raises ValueError for any other size.
\<close>

definition assign_flag :: "int list \<Rightarrow> nat \<Rightarrow> int list \<Rightarrow> error + int list" where
  "assign_flag col i vals = (case vals of [f] \<Rightarrow> Inr (col[i := f]) | _ \<Rightarrow> Inl ValueError)"

text \<open>
  One pass of the loop \<open>for i in range(N_spheres)\<close>. \<open>mtab\<close> is \<open>maximal_spheres_table\<close>
  (rows with their flag), \<open>ms\<close> the array \<open>maximal_spheres_indices\<close>; the triples
  \<open>(k, R, d)\<close> are an entry of \<open>maximal_indices\<close>, the radius of that maximal sphere and
  its separation from sphere \<open>i\<close>.
\<close>

definition phase2_step ::
  "sphere list \<Rightarrow> (sphere \<times> int) list \<Rightarrow> nat list \<Rightarrow> nat \<Rightarrow> phase2_state \<Rightarrow> error + phase2_state" where
  "phase2_step tbl mtab ms i st =
     (if i \<in> set ms then
        (case assign_flag (flag_col st) i
                (map (\<lambda>(m, row). snd row) (filter (\<lambda>(m, row). m = i) (zip ms mtab))) of
           Inl e \<Rightarrow> Inl e
         | Inr col \<Rightarrow> Inr (st\<lparr>flag_col := col\<rparr>))
      else
        let sphere_i_radius = radius (tbl ! i);
            maximal = map (\<lambda>(k, row). (k, radius (fst row), separation (fst row) (tbl ! i)))
                          (zip [0..<length mtab] mtab)
        in if list_ex (\<lambda>(k, R, d). R - sphere_i_radius > d) maximal then Inr st
           else
             let overlapping = filter (\<lambda>(k, R, d). d \<le> sphere_i_radius + R) maximal
             in if overlapping \<noteq> [] then
                  let volume_i = sphere_volume sphere_i_radius;
                      overlap2 = filter (\<lambda>(k, R, d).
                                   np_less (Fin (0.5 * volume_i)) (overlap_volume sphere_i_radius R d))
                                 overlapping
                  in if length overlap2 = 1 then
                       (case assign_flag (flag_col st) i
                               (map (\<lambda>(k, R, d). snd (mtab ! k)) overlap2) of
                          Inl e \<Rightarrow> Inl e
                        | Inr col \<Rightarrow>
                            Inr \<lparr>flag_col = col,
                                 holes_indices = holes_indices st @ [i],
                                 N_holes = N_holes st + 1\<rparr>)
                     else Inr st
                else Inr st)"

text \<open>A loop whose body may raise: the first error ends it.\<close>

fun run_loop :: "('a \<Rightarrow> 's \<Rightarrow> error + 's) \<Rightarrow> 'a list \<Rightarrow> 's \<Rightarrow> error + 's" where
  "run_loop f [] s = Inr s"
| "run_loop f (a # as) s = (case f a s of Inl e \<Rightarrow> Inl e | Inr s' \<Rightarrow> run_loop f as s')"

definition maximal_table :: "sphere list \<Rightarrow> nat list \<Rightarrow> nat \<Rightarrow> (sphere \<times> int) list" where
  "maximal_table tbl ms N_voids = zip (map (\<lambda>m. tbl ! m) ms) (map (\<lambda>k. int k + 1) [0..<N_voids])"

definition phase2 :: "sphere list \<Rightarrow> nat list \<Rightarrow> nat \<Rightarrow> error + phase2_state" where
  "phase2 tbl ms N_voids =
     (let N_spheres = length tbl
      in run_loop (phase2_step tbl (maximal_table tbl ms N_voids) ms) [0..<N_spheres]
           \<lparr>flag_col = replicate N_spheres (- 1), holes_indices = [], N_holes = 0\<rparr>)"

subsection \<open>combine\_holes\<close>

text \<open>
  The result is the pair \<open>(maximal_spheres_table, holes_table)\<close>, each a list of rows with
  their \<open>flag\<close>. \<open>spheres_table[maximal_spheres_indices]\<close> raises IndexError for an index
  outside the table (the empty table: index 0 is always in the list), and the assignment of
  the flag column raises ValueError unless it has one entry per row.
\<close>

definition combine_holes ::
  "sphere list \<Rightarrow> real \<Rightarrow> error + ((sphere \<times> int) list \<times> (sphere \<times> int) list)" where
  "combine_holes tbl fr =
     (case phase1 tbl fr of (N_voids, ms) \<Rightarrow>
        if \<not> list_all (\<lambda>m. m < length tbl) ms then Inl IndexError
        else if length ms \<noteq> N_voids then Inl ValueError
        else
          (case phase2 tbl ms N_voids of
             Inl e \<Rightarrow> Inl e
           | Inr st \<Rightarrow>
               Inr (maximal_table tbl ms N_voids,
                    map (\<lambda>i. (tbl ! i, flag_col st ! i)) (holes_indices st))))"

section \<open>zobov.py: sortVoids\<close>

subsection \<open>The object and its stages\<close>

text \<open>
  The classes \<open>Catalog\<close>, \<open>Tesselation\<close>, \<open>Zones\<close> and \<open>Voids\<close> are declared in
  \<open>vast.vsquared.classes\<close>, which is not among the sources; the records hold the fields
  that \<open>sortVoids\<close> reads. A galaxy position has the abstract type \<open>'p\<close>. The constructor
  sets the attributes \<open>catalog\<close>, \<open>tesselation\<close>, \<open>zones\<close> and \<open>prevoids\<close> only up to the
  stage it ran to, and \<open>sortVoids\<close> sets \<open>vrads\<close>, \<open>vcens\<close>, \<open>vaxes\<close> and \<open>zvoid\<close>: an
  attribute that is not set is \<open>None\<close>, and reading it raises AttributeError.
\<close>

record 'p Catalog =
  coord :: "'p list"
  nnls :: "int list"

record Tesselation =
  volumes :: "real list"

record Zones =
  zcell :: "nat list list"
  zvols :: "real list"

record Voids =
  voids :: "nat list list list"
  mvols :: "real list"
  ovols :: "real list list"

record ('p, 'c, 'a) Zobov =
  catalog :: "'p Catalog option"
  tesselation :: "Tesselation option"
  zones :: "Zones option"
  prevoids :: "Voids option"
  minrad :: "npfloat option"
  vrads :: "npfloat list option"
  vcens :: "'c list option"
  vaxes :: "'a list option"
  zvoid :: "(int \<times> int) list option"

text \<open>
  The helpers of \<open>vast.vsquared.util\<close> and \<open>scipy.stats\<close> are not among the sources either.
  \<open>wCen\<close>, \<open>getSMA\<close>, \<open>inSphere\<close>, \<open>P\<close> and \<open>stats.norm.isf\<close> are parameters of the model;
  \<open>flatten\<close> is modelled from the spec, see \<open>flatten_cells\<close> below.
\<close>

record ('p, 'c, 'a) util =
  wCen :: "real list \<Rightarrow> 'p list \<Rightarrow> 'c"
  getSMA :: "npfloat \<Rightarrow> 'p list \<Rightarrow> 'a"
  inSphere :: "'c \<Rightarrow> npfloat \<Rightarrow> 'p list \<Rightarrow> bool list"
  util_P :: "npfloat \<Rightarrow> npfloat"
  norm_isf :: "npfloat \<Rightarrow> npfloat"

datatype printed = Line string | Removed_voids_smaller_than npfloat

subsection \<open>Raising operations\<close>

definition and_then :: "error + 'a \<Rightarrow> ('a \<Rightarrow> error + 'b) \<Rightarrow> error + 'b" where
  "and_then m f = (case m of Inl e \<Rightarrow> Inl e | Inr a \<Rightarrow> f a)"

definition attr :: "'a option \<Rightarrow> error + 'a" where
  "attr v = (case v of None \<Rightarrow> Inl AttributeError | Some a \<Rightarrow> Inr a)"

text \<open>\<open>a[idx]\<close> with a list of indices: IndexError for an index outside the array.\<close>

definition take_idx :: "'a list \<Rightarrow> nat list \<Rightarrow> error + 'a list" where
  "take_idx a idx =
     (if list_all (\<lambda>i. i < length a) idx then Inr (map (\<lambda>i. a ! i) idx) else Inl IndexError)"

text \<open>\<open>a[m]\<close> with a boolean mask of the length of \<open>a\<close>.\<close>

definition mask :: "'a list \<Rightarrow> bool list \<Rightarrow> 'a list" where
  "mask a m = map fst (filter snd (zip a m))"

text \<open>A list comprehension whose element expression may raise.\<close>

fun map_err :: "('a \<Rightarrow> error + 'b) \<Rightarrow> 'a list \<Rightarrow> error + 'b list" where
  "map_err f [] = Inr []"
| "map_err f (a # as) =
     (case f a of
        Inl e \<Rightarrow> Inl e
      | Inr b \<Rightarrow> (case map_err f as of Inl e \<Rightarrow> Inl e | Inr bs \<Rightarrow> Inr (b # bs)))"

subsection \<open>Numerics\<close>

text \<open>\<open>x**(1/3)\<close>: NaN for a negative base, and both infinities go to \<open>+inf\<close>.\<close>

fun np_pow_third :: "npfloat \<Rightarrow> npfloat" where
  "np_pow_third (Fin v) = (if v < 0 then NaN else Fin (root 3 v))"
| "np_pow_third PInf = PInf"
| "np_pow_third NInf = PInf"
| "np_pow_third NaN = NaN"

text \<open>\<open>(vvols*3/(4*np.pi))**(1/3)\<close>, for one volume.\<close>

definition effective_radius :: "real \<Rightarrow> npfloat" where
  "effective_radius vvol = np_pow_third (Fin (vvol * 3 / (4 * pi)))"

fun np_insort :: "npfloat \<Rightarrow> npfloat list \<Rightarrow> npfloat list" where
  "np_insort a [] = [a]"
| "np_insort a (b # bs) = (if np_le a b then a # b # bs else b # np_insort a bs)"

text \<open>\<open>np.median\<close>: NaN for an empty array or an array that holds a NaN, else the middle
  element of the sorted array, or the mean of the two middle elements.\<close>

definition np_median :: "npfloat list \<Rightarrow> npfloat" where
  "np_median a =
     (if a = [] \<or> NaN \<in> set a then NaN
      else
        let s = foldr np_insort a []; n = length s
        in if even n then np_div (np_add (s ! (n div 2 - 1)) (s ! (n div 2))) (Fin 2)
           else s ! (n div 2))"

text \<open>\<open>np.mean(volumes[volumes>0])/dc\<close>: the mean of no element is \<open>0/0\<close>.\<close>

definition minvol_of :: "real list \<Rightarrow> real \<Rightarrow> npfloat" where
  "minvol_of vols dc =
     (let pos = filter (\<lambda>v. v > 0) vols
      in np_div (np_div (Fin (sum_list pos)) (Fin (real (length pos)))) (Fin dc))"

subsection \<open>Selecting the void candidates\<close>

text \<open>
  Method 0, the loop \<open>for j in range(len(vl)-1)\<close> of entry \<open>i\<close>, with its \<open>break\<close>:
  \<open>vl = ovols[i]\<close>, and \<open>voids[i][j]\<close> raises IndexError outside the hierarchy.
\<close>

fun method0_levels :: "npfloat \<Rightarrow> Voids \<Rightarrow> nat \<Rightarrow> nat list \<Rightarrow> nat list \<Rightarrow> error + nat list" where
  "method0_levels minvol pv i [] vbuff = Inr vbuff"
| "method0_levels minvol pv i (j # js) vbuff =
     (if j > 0 \<and> np_less (Fin (ovols pv ! i ! j)) minvol then Inr vbuff
      else if i < length (voids pv) \<and> j < length (voids pv ! i)
           then method0_levels minvol pv i js (vbuff @ voids pv ! i ! j)
           else Inl IndexError)"

definition select_method0 :: "npfloat \<Rightarrow> Voids \<Rightarrow> error + nat list list" where
  "select_method0 minvol pv =
     map_err (\<lambda>i. method0_levels minvol pv i [0..<length (ovols pv ! i) - 1] [])
             [0..<length (ovols pv)]"

definition select_method1 :: "Voids \<Rightarrow> nat list list" where
  "select_method1 pv = map concat (voids pv)"

text \<open>Method 2, one pass of \<open>for i in range(len(mvols))\<close>; the volumes of the hierarchy are
  taken to be NumPy floats, so \<open>vh / vl\<close> does not raise.\<close>

definition method2_step ::
  "('p, 'c, 'a) util \<Rightarrow> real \<Rightarrow> Voids \<Rightarrow> nat \<Rightarrow> nat list list \<Rightarrow> error + nat list list" where
  "method2_step U minsig pv i acc =
     (if i < length (ovols pv) \<and> ovols pv ! i \<noteq> [] then
        let vh = mvols pv ! i;
            vl = last (ovols pv ! i);
            r = np_div (Fin vh) (Fin vl);
            p = util_P U r
        in if np_le (Fin minsig) (norm_isf U (np_div p (Fin 2))) then
             (if i < length (voids pv) then Inr (acc @ [concat (voids pv ! i)])
              else Inl IndexError)
           else Inr acc
      else Inl IndexError)"

definition select_method2 :: "('p, 'c, 'a) util \<Rightarrow> real \<Rightarrow> Voids \<Rightarrow> error + nat list list" where
  "select_method2 U minsig pv = run_loop (method2_step U minsig pv) [0..<length (mvols pv)] []"

text \<open>The outcome of lines 142--183: the candidates, with \<open>minvol\<close> where method 0 has set
  it, or the message printed before \<open>return\<close>.\<close>

datatype selection = Candidates "nat list list" "npfloat option" | Return_early string

definition select_candidates ::
  "('p, 'c, 'a) util \<Rightarrow> ('p, 'c, 'a) Zobov \<Rightarrow> int \<Rightarrow> real \<Rightarrow> real \<Rightarrow> error + selection" where
  "select_candidates U z method minsig dc =
     (if method = 0 then
        and_then (attr (tesselation z)) (\<lambda>tess.
        and_then (attr (prevoids z)) (\<lambda>pv.
        and_then (select_method0 (minvol_of (volumes tess) dc) pv) (\<lambda>cands.
        Inr (Candidates cands (Some (minvol_of (volumes tess) dc))))))
      else if method = 1 then
        and_then (attr (prevoids z)) (\<lambda>pv. Inr (Candidates (select_method1 pv) None))
      else if method = 2 then
        and_then (attr (prevoids z)) (\<lambda>pv.
        and_then (select_method2 U minsig pv) (\<lambda>cands. Inr (Candidates cands None)))
      else if method = 3 then Inr (Return_early ''Method 3 coming soon'')
      else if method = 4 then
        and_then (attr (zones z)) (\<lambda>zn.
        Inr (Candidates (map (\<lambda>k. [k]) [0..<length (zvols zn)]) None))
      else Inr (Return_early ''Choose a valid method''))"

subsection \<open>The zone-void map\<close>

text \<open>
  The body of the loops of lines 229--238 for candidate \<open>i\<close> and zone \<open>j\<close>; an entry of
  \<open>zvoid\<close> is the pair \<open>(zvoid[j][0], zvoid[j][1])\<close>. \<open>py_index\<close> is the indexing of a
  Python sequence by an integer: a negative index counts from the end.
\<close>

definition py_index :: "'a list \<Rightarrow> int \<Rightarrow> error + 'a" where
  "py_index a k =
     (let n = int (length a); k' = (if k < 0 then n + k else k)
      in if 0 \<le> k' \<and> k' < n then Inr (a ! nat k') else Inl IndexError)"

definition zvoid_assign ::
  "nat list list \<Rightarrow> nat \<Rightarrow> nat \<Rightarrow> (int \<times> int) list \<Rightarrow> error + (int \<times> int) list" where
  "zvoid_assign cands i j zv =
     (if j < length zv then
        (case zv ! j of (p, s) \<Rightarrow>
           if real_of_int p > - 0.5 then
             and_then (py_index cands p) (\<lambda>vp.
               if length (cands ! i) < length vp then Inr (zv[j := (int i, s)])
               else
                 and_then (py_index cands s) (\<lambda>vs.
                   if length (cands ! i) > length vs then Inr (zv[j := (p, int i)])
                   else Inr zv))
           else Inr (zv[j := (int i, int i)]))
      else Inl IndexError)"

definition zvoid_build :: "nat list list \<Rightarrow> nat \<Rightarrow> error + (int \<times> int) list" where
  "zvoid_build cands nzones =
     run_loop (\<lambda>i. run_loop (zvoid_assign cands i) (cands ! i)) [0..<length cands]
       (replicate nzones (- 1, - 1))"

subsection \<open>Radii, centres, axes\<close>

text \<open>Modelled from the spec: \<open>flatten\<close> of \<open>vast.vsquared.util\<close>, which is not among the
  sources. \<open>list(flatten(self.zones.zcell[v]))\<close> is the full cell list of the candidate
  \<open>v\<close>: the cell lists of its zones, concatenated.\<close>

definition flatten_cells :: "nat list list \<Rightarrow> nat list \<Rightarrow> error + nat list" where
  "flatten_cells zc v = and_then (take_idx zc v) (\<lambda>cells. Inr (concat cells))"

record ('c, 'a) sorted_voids =
  sv_voids :: "nat list list"
  sv_vrads :: "npfloat list"
  sv_vcens :: "'c list"
  sv_vaxes :: "'a list"
  sv_zvoid :: "(int \<times> int) list"
  sv_minrad :: npfloat

definition count_true :: "bool list \<Rightarrow> nat" where
  "count_true m = length (filter (\<lambda>b. b) m)"

text \<open>Lines 214--220, for method 0: the density cut \<open>dcut\<close>, then the radius cut.\<close>

definition method0_cuts ::
  "('p, 'c, 'a) util \<Rightarrow> npfloat \<Rightarrow> real \<Rightarrow> 'p list \<Rightarrow>
   nat list list \<times> npfloat list \<times> 'c list \<times> real list \<Rightarrow> nat list list \<times> npfloat list \<times> 'c list" where
  "method0_cuts U minvol dc cutco arrays =
     (case arrays of (voids1, vrads1, vcens1, vvols1) \<Rightarrow>
        let dcut = map (\<lambda>(c, r, v).
                      np_less (np_div (Fin (64 * real (count_true (inSphere U c (np_div r (Fin 4)) cutco))))
                                      (Fin v))
                              (np_div (Fin 1) minvol))
                     (zip vcens1 (zip vrads1 vvols1));
            vrads2 = mask vrads1 dcut;
            rcut = map (\<lambda>r. np_less (np_pow_third (np_mul minvol (Fin dc))) r) vrads2
        in (mask (mask voids1 dcut) rcut, mask vrads2 rcut, mask (mask vcens1 dcut) rcut))"

text \<open>Line 187: \<open>vcuts\<close>.\<close>

definition candidate_cells :: "Zones \<Rightarrow> nat list list \<Rightarrow> error + nat list list" where
  "candidate_cells zn cands = map_err (flatten_cells (zcell zn)) cands"

text \<open>Lines 189--190: \<open>gcut\<close> and \<open>cutco\<close>. A boolean mask of another length than the array
  raises IndexError.\<close>

definition unique_coords :: "'p Catalog \<Rightarrow> error + 'p list" where
  "unique_coords cat =
     (if length (nnls cat) \<noteq> length (coord cat) then Inl IndexError
      else Inr (map (\<lambda>g. coord cat ! g)
                    (filter (\<lambda>g. nnls cat ! g = int g) [0..<length (coord cat)])))"

text \<open>Line 193: \<open>vvols\<close>.\<close>

definition candidate_volumes :: "Tesselation \<Rightarrow> nat list list \<Rightarrow> error + real list" where
  "candidate_volumes tess vcuts =
     and_then (map_err (take_idx (volumes tess)) vcuts) (\<lambda>cellvols. Inr (map sum_list cellvols))"

text \<open>Line 213: \<open>vcens\<close>.\<close>

definition void_centres ::
  "('p, 'c, 'a) util \<Rightarrow> Tesselation \<Rightarrow> 'p list \<Rightarrow> nat list list \<Rightarrow> error + 'c list" where
  "void_centres U tess cutco vcuts1 =
     map_err (\<lambda>vcut.
        and_then (take_idx (volumes tess) vcut) (\<lambda>w.
        and_then (take_idx cutco vcut) (\<lambda>c. Inr (wCen U w c)))) vcuts1"

text \<open>Line 225: \<open>vaxes\<close>, over \<open>range(len(vrads))\<close>.\<close>

definition ellipsoid_axes ::
  "('p, 'c, 'a) util \<Rightarrow> 'p list \<Rightarrow> npfloat list \<Rightarrow> nat list list \<Rightarrow> error + 'a list" where
  "ellipsoid_axes U cutco vrads2 vcuts1 =
     map_err (\<lambda>rv. and_then (take_idx cutco (snd rv)) (\<lambda>c. Inr (getSMA U (fst rv) c)))
             (zip vrads2 vcuts1)"

text \<open>Lines 211--238, on the arrays that the radius cut has left; \<open>arrays\<close> is the triple
  \<open>(voids, vrads, vcens)\<close> after the cuts of method 0.\<close>

definition measure_voids ::
  "('p, 'c, 'a) util \<Rightarrow> Tesselation \<Rightarrow> 'p list \<Rightarrow> int \<Rightarrow> real \<Rightarrow> npfloat option \<Rightarrow> nat \<Rightarrow> npfloat \<Rightarrow>
   nat list list \<Rightarrow> nat list list \<Rightarrow> real list \<Rightarrow> npfloat list \<Rightarrow> error + ('c, 'a) sorted_voids" where
  "measure_voids U tess cutco method dc minvol nzones minrad1 voids1 vcuts1 vvols1 vrads1 =
     and_then (void_centres U tess cutco vcuts1) (\<lambda>vcens1.
     and_then (if method = 0
               then (case minvol of
                       None \<Rightarrow> Inl UnboundLocalError
                     | Some mv \<Rightarrow> Inr (method0_cuts U mv dc cutco (voids1, vrads1, vcens1, vvols1)))
               else Inr (voids1, vrads1, vcens1)) (\<lambda>arrays.
     and_then (ellipsoid_axes U cutco (fst (snd arrays)) vcuts1) (\<lambda>vaxes2.
     and_then (zvoid_build (fst arrays) nzones) (\<lambda>zv.
     Inr \<lparr>sv_voids = fst arrays, sv_vrads = fst (snd arrays), sv_vcens = snd (snd arrays),
          sv_vaxes = vaxes2, sv_zvoid = zv, sv_minrad = minrad1\<rparr>))))"

text \<open>Lines 187--238: from the candidates to the values that \<open>sortVoids\<close> stores. \<open>rcut\<close> is
  the mask \<open>vrads > self.minrad\<close>; for method 4, \<open>self.minrad\<close> is the median first.\<close>

definition sort_candidates ::
  "('p, 'c, 'a) util \<Rightarrow> ('p, 'c, 'a) Zobov \<Rightarrow> int \<Rightarrow> real \<Rightarrow> nat list list \<Rightarrow> npfloat option \<Rightarrow>
   error + ('c, 'a) sorted_voids" where
  "sort_candidates U z method dc cands minvol =
     and_then (attr (zones z)) (\<lambda>zn.
     and_then (candidate_cells zn cands) (\<lambda>vcuts.
     and_then (attr (catalog z)) (\<lambda>cat.
     and_then (unique_coords cat) (\<lambda>cutco.
     and_then (attr (tesselation z)) (\<lambda>tess.
     and_then (candidate_volumes tess vcuts) (\<lambda>vvols.
     and_then (if method = 4 then Inr (np_median (map effective_radius vvols))
               else attr (minrad z)) (\<lambda>minrad1.
       let vrads0 = map effective_radius vvols;
           rcut = map (\<lambda>r. np_less minrad1 r) vrads0
       in measure_voids U tess cutco method dc minvol (length (zvols zn)) minrad1
            (mask cands rcut) (mask vcuts rcut) (mask vvols rcut) (mask vrads0 rcut))))))))"

subsection \<open>sortVoids\<close>

text \<open>
  \<open>sortVoids_body\<close> is the method up to line 238: what it prints, and the values to store,
  or \<open>None\<close> where it returns early. \<open>sortVoids\<close> then sets the attributes (lines 201 and
  240--243). A \<open>return\<close> after a \<open>print\<close> is a normal return: the method raises nothing
  of its own, and its value is \<open>None\<close> on every path. Where an exception leaves the method,
  the model gives the exception only.
\<close>

definition sortVoids_body ::
  "('p, 'c, 'a) util \<Rightarrow> ('p, 'c, 'a) Zobov \<Rightarrow> int \<Rightarrow> real \<Rightarrow> real \<Rightarrow>
   error + printed list \<times> ('c, 'a) sorted_voids option" where
  "sortVoids_body U z method minsig dc =
     (if prevoids z = None \<and> (method \<noteq> 4 \<or> zones z = None)
      then Inr ([Line ''Run all stages of Zobov first''], None)
      else
        and_then (select_candidates U z method minsig dc) (\<lambda>sel.
          case sel of
            Return_early msg \<Rightarrow> Inr ([Line ''Selecting void candidates...'', Line msg], None)
          | Candidates cands minvol \<Rightarrow>
              and_then (sort_candidates U z method dc cands minvol) (\<lambda>sv.
                Inr ([Line ''Selecting void candidates...'',
                      Line ''Void candidates selected...'',
                      Line ''Effective void radius calculated'',
                      Removed_voids_smaller_than (sv_minrad sv),
                      Line ''Finding void centers...'',
                      Line ''Calculating ellipsoid axes...''],
                     Some sv))))"

definition store :: "('p, 'c, 'a) Zobov \<Rightarrow> ('c, 'a) sorted_voids \<Rightarrow> ('p, 'c, 'a) Zobov" where
  "store z sv =
     z\<lparr>minrad := Some (sv_minrad sv), vrads := Some (sv_vrads sv), vcens := Some (sv_vcens sv),
       vaxes := Some (sv_vaxes sv), zvoid := Some (sv_zvoid sv)\<rparr>"

definition sortVoids ::
  "('p, 'c, 'a) util \<Rightarrow> ('p, 'c, 'a) Zobov \<Rightarrow> int \<Rightarrow> real \<Rightarrow> real \<Rightarrow>
   error + printed list \<times> ('p, 'c, 'a) Zobov" where
  "sortVoids U z method minsig dc =
     and_then (sortVoids_body U z method minsig dc) (\<lambda>(out, res).
       case res of None \<Rightarrow> Inr (out, z) | Some sv \<Rightarrow> Inr (out, store z sv))"

section \<open>Notions of the specification\<close>

subsection \<open>Spheres\<close>

text \<open>The candidate set is sorted descending by radius.\<close>

definition radius_descending :: "sphere list \<Rightarrow> bool" where
  "radius_descending tbl = sorted_wrt (\<lambda>s t. radius s \<ge> radius t) tbl"

text \<open>Sphere \<open>s\<close> lies entirely inside sphere \<open>m\<close>, by the test of the code:
  \<open>maximal.radius - s.radius > distance\<close>.\<close>

definition strictly_inside :: "sphere \<Rightarrow> sphere \<Rightarrow> bool" where
  "strictly_inside s m = (radius m - radius s > separation m s)"

text \<open>Sphere \<open>s\<close> intersects \<open>m\<close> and their overlap volume is not at most \<open>fr\<close> times the
  volume of \<open>s\<close>; and the conditions under which pass \<open>i\<close> of phase 1 appends \<open>i\<close>.\<close>

definition over_fraction :: "real \<Rightarrow> sphere \<Rightarrow> sphere \<Rightarrow> bool" where
  "over_fraction fr s m =
     (separation m s \<le> radius s + radius m \<and>
      \<not> np_le (overlap_volume (radius s) (radius m) (separation m s))
               (Fin (fr * sphere_volume (radius s))))"

definition accepted :: "sphere list \<Rightarrow> real \<Rightarrow> nat list \<Rightarrow> nat \<Rightarrow> bool" where
  "accepted tbl fr ms i =
     (\<not> list_ex (\<lambda>m. strictly_inside (tbl ! i) (tbl ! m)) ms \<and>
      \<not> list_ex (\<lambda>m. over_fraction fr (tbl ! i) (tbl ! m)) ms)"

text \<open>Sphere \<open>s\<close> intersects \<open>m\<close> and their overlap volume exceeds 50\% of the volume of \<open>s\<close>.\<close>

definition exceeds_half :: "sphere \<Rightarrow> sphere \<Rightarrow> bool" where
  "exceeds_half s m =
     (separation m s \<le> radius s + radius m \<and>
      np_less (Fin (0.5 * sphere_volume (radius s)))
              (overlap_volume (radius s) (radius m) (separation m s)))"

text \<open>
  The hole table as the specification words it, for the table \<open>mtab\<close> of maximal spheres with
  indices \<open>ms\<close>: sphere \<open>i\<close> is a hole when it is not a maximal sphere, is not strictly inside
  a maximal sphere, and exceeds the 50\% overlap for exactly one maximal sphere; its flag is
  the void id of that one maximal sphere.
\<close>

definition is_hole :: "sphere list \<Rightarrow> (sphere \<times> int) list \<Rightarrow> nat list \<Rightarrow> nat \<Rightarrow> bool" where
  "is_hole tbl mtab ms i =
     (i \<notin> set ms \<and>
      \<not> list_ex (\<lambda>row. strictly_inside (tbl ! i) (fst row)) mtab \<and>
      length (filter (\<lambda>row. exceeds_half (tbl ! i) (fst row)) mtab) = 1)"

definition hole_flag :: "(sphere \<times> int) list \<Rightarrow> sphere \<Rightarrow> int" where
  "hole_flag mtab s = snd (hd (filter (\<lambda>row. exceeds_half s (fst row)) mtab))"

definition hole_table :: "sphere list \<Rightarrow> (sphere \<times> int) list \<Rightarrow> nat list \<Rightarrow> (sphere \<times> int) list" where
  "hole_table tbl mtab ms =
     map (\<lambda>i. (tbl ! i, hole_flag mtab (tbl ! i))) (filter (is_hole tbl mtab ms) [0..<length tbl])"

text \<open>The sum of the two caps over \<open>pi / 3\<close>, where the centres are apart.\<close>

definition caps :: "real \<Rightarrow> real \<Rightarrow> real \<Rightarrow> real" where
  "caps r R d =
     ((R - r + d) * (R + r - d) / (2 * d))\<^sup>2 * (3 * r - (R - r + d) * (R + r - d) / (2 * d)) +
     ((r - R + d) * (r + R - d) / (2 * d))\<^sup>2 * (3 * R - (r - R + d) * (r + R - d) / (2 * d))"

subsection \<open>Example tables\<close>

definition small_sphere :: sphere where
  "small_sphere = \<lparr>cx = 0, cy = 0, cz = 0, radius = 5\<rparr>"

definition big_sphere :: sphere where
  "big_sphere = \<lparr>cx = 0, cy = 0, cz = 0, radius = 30\<rparr>"

definition mid_sphere :: sphere where
  "mid_sphere = \<lparr>cx = 35, cy = 0, cz = 0, radius = 20\<rparr>"

definition inner_sphere :: sphere where
  "inner_sphere = \<lparr>cx = 43, cy = 0, cz = 0, radius = 11\<rparr>"

definition nested_sphere :: sphere where
  "nested_sphere = \<lparr>cx = 5, cy = 0, cz = 0, radius = 11\<rparr>"

text \<open>A sphere that touches \<open>big_sphere\<close> from inside: \<open>d + r = 15 + 15 = 30\<close>.\<close>

definition tangent_inside :: sphere where
  "tangent_inside = \<lparr>cx = 15, cy = 0, cz = 0, radius = 15\<rparr>"


definition twin_sphere :: sphere where
  "twin_sphere = \<lparr>cx = 0, cy = 0, cz = 0, radius = 20\<rparr>"

text \<open>Three spheres of radius 11, their centres at the corners of a triangle of side 22.\<close>

definition tangent_a :: sphere where
  "tangent_a = \<lparr>cx = 0, cy = 0, cz = 0, radius = 11\<rparr>"

definition tangent_b :: sphere where
  "tangent_b = \<lparr>cx = 22, cy = 0, cz = 0, radius = 11\<rparr>"

definition tangent_c :: sphere where
  "tangent_c = \<lparr>cx = 11, cy = 11 * sqrt 3, cz = 0, radius = 11\<rparr>"

subsection \<open>Void candidates\<close>

text \<open>
  Method 0 as the specification words it. A level's volume has not dropped below the bound;
  the number of levels gathered from the level volumes \<open>lv\<close>: the first level whatever its
  volume, then the levels that follow for as long as the volume has not dropped below the
  bound; and the cell list of an entry with level volumes \<open>vl\<close> (the last entry of \<open>vl\<close>
  belongs to no level) and cell groups \<open>groups\<close>.
\<close>

definition not_below :: "npfloat \<Rightarrow> real \<Rightarrow> bool" where
  "not_below minvol v = (\<not> np_less (Fin v) minvol)"

definition vide_levels :: "npfloat \<Rightarrow> real list \<Rightarrow> nat" where
  "vide_levels minvol lv =
     (case lv of [] \<Rightarrow> 0 | v # rest \<Rightarrow> Suc (length (takeWhile (not_below minvol) rest)))"

definition vide_cells :: "npfloat \<Rightarrow> real list \<Rightarrow> nat list list \<Rightarrow> nat list" where
  "vide_cells minvol vl groups = concat (take (vide_levels minvol (butlast vl)) groups)"

text \<open>The shape of the hierarchy that \<open>Voids\<close> hands over: an entry of \<open>ovols\<close> holds one
  volume for each level of its entry of \<open>voids\<close> and, last, the volume of the link.\<close>

definition hierarchy_shape :: "Voids \<Rightarrow> bool" where
  "hierarchy_shape pv = list_all2 (\<lambda>vl vs. length vl = Suc (length vs)) (ovols pv) (voids pv)"

text \<open>The level volumes of an entry descend (the volume of the link apart).\<close>

definition levels_descend :: "real list \<Rightarrow> bool" where
  "levels_descend vl = sorted_wrt (\<lambda>a b. a \<ge> b) (butlast vl)"

text \<open>Method 4: the effective radius of every zone, a candidate of its own.\<close>

definition zone_radii :: "Zones \<Rightarrow> Tesselation \<Rightarrow> npfloat list" where
  "zone_radii zn tess =
     map (\<lambda>k. effective_radius (sum_list (map (\<lambda>c. volumes tess ! c) (zcell zn ! k))))
         [0..<length (zvols zn)]"

definition median_radius_candidates :: "('p, 'c, 'a) Zobov \<Rightarrow> npfloat list" where
  "median_radius_candidates z =
     (case zones z of
        None \<Rightarrow> []
      | Some zn \<Rightarrow> (case tesselation z of None \<Rightarrow> [] | Some tess \<Rightarrow> zone_radii zn tess))"

text \<open>An entry \<open>(primary, secondary)\<close> of the zone-void map over the candidates \<open>cands\<close>:
  unassigned, or two candidates of which the primary is not the larger.\<close>

definition entry_ok :: "nat list list \<Rightarrow> int \<times> int \<Rightarrow> bool" where
  "entry_ok cands e =
     (case e of (p, s) \<Rightarrow>
        (p = - 1 \<and> s = - 1) \<or>
        (0 \<le> p \<and> nat p < length cands \<and> 0 \<le> s \<and> nat s < length cands \<and>
         length (cands ! nat p) \<le> length (cands ! nat s)))"

definition zv_inv :: "nat list list \<Rightarrow> nat \<Rightarrow> nat set \<Rightarrow> (int \<times> int) list \<Rightarrow> bool" where
  "zv_inv cands n touched zv =
     (list_all (entry_ok cands) zv \<and> length zv = n \<and>
      (\<forall>k. k \<notin> touched \<longrightarrow> k < n \<longrightarrow> zv ! k = (- 1, - 1)))"

text \<open>
  A run that stopped after the zones: catalog, tesselation and zones are set, and every
  cell of a zone is a cell of the tesselation and a galaxy of \<open>cutco\<close>.
\<close>

definition zones_stage_complete :: "('p, 'c, 'a) Zobov \<Rightarrow> bool" where
  "zones_stage_complete z =
     (case catalog z of
        None \<Rightarrow> False
      | Some cat \<Rightarrow>
          (case tesselation z of
             None \<Rightarrow> False
           | Some tess \<Rightarrow>
               (case zones z of
                  None \<Rightarrow> False
                | Some zn \<Rightarrow>
                    length (nnls cat) = length (coord cat) \<and>
                    length (zvols zn) \<le> length (zcell zn) \<and>
                    list_all (list_all (\<lambda>c. c < length (volumes tess) \<and>
                                 c < length (filter (\<lambda>g. nnls cat ! g = int g) [0..<length (coord cat)])))
                             (take (length (zvols zn)) (zcell zn)))))"

text \<open>What a call prints that runs to its end.\<close>

definition all_lines :: "npfloat \<Rightarrow> printed list" where
  "all_lines r =
     [Line ''Selecting void candidates...'',
      Line ''Void candidates selected...'',
      Line ''Effective void radius calculated'',
      Removed_voids_smaller_than r,
      Line ''Finding void centers...'',
      Line ''Calculating ellipsoid axes...'']"

subsection \<open>Example runs\<close>

text \<open>The volume of a ball; helpers that return nothing of interest; a run of three zones
  of one cell each that stopped after the zones; and a run with a hierarchy of two entries.\<close>

definition ball :: "real \<Rightarrow> real" where
  "ball r = 4 * pi * r ^ 3 / 3"

definition no_util :: "(unit, unit, unit) util" where
  "no_util = \<lparr>wCen = (\<lambda>w c. ()), getSMA = (\<lambda>r c. ()), inSphere = (\<lambda>c r ps. map (\<lambda>p. False) ps),
              util_P = (\<lambda>r. r), norm_isf = (\<lambda>p. p)\<rparr>"

definition zones_run :: "(unit, unit, unit) Zobov" where
  "zones_run =
     \<lparr>catalog = Some \<lparr>coord = [(), (), ()], nnls = [0, 1, 2]\<rparr>,
      tesselation = Some \<lparr>volumes = [ball 1, ball 2, ball 3]\<rparr>,
      zones = Some \<lparr>zcell = [[0], [1], [2]], zvols = [ball 1, ball 2, ball 3]\<rparr>,
      prevoids = None,
      minrad = Some (Fin 0),
      vrads = None, vcens = None, vaxes = None, zvoid = None\<rparr>"

definition zones_run_sorted :: "(unit, unit) sorted_voids" where
  "zones_run_sorted =
     \<lparr>sv_voids = [[2]], sv_vrads = [Fin 3], sv_vcens = [()], sv_vaxes = [()],
      sv_zvoid = [(- 1, - 1), (- 1, - 1), (0, 0)], sv_minrad = Fin 2\<rparr>"

definition full_tess :: Tesselation where
  "full_tess = \<lparr>volumes = [ball 2, 0, ball 1]\<rparr>"

definition full_voids :: Voids where
  "full_voids = \<lparr>voids = [[[0], [1]], [[1]]], mvols = [1, 1], ovols = [[ball 2, 0, 9], [0, 9]]\<rparr>"

definition full_run :: "(unit, unit, unit) Zobov" where
  "full_run =
     \<lparr>catalog = Some \<lparr>coord = [(), (), ()], nnls = [0, 1, 2]\<rparr>,
      tesselation = Some full_tess,
      zones = Some \<lparr>zcell = [[0], [1], [2]], zvols = [ball 2, 0, ball 1]\<rparr>,
      prevoids = Some full_voids,
      minrad = Some (Fin (- 1)),
      vrads = None, vcens = None, vaxes = None, zvoid = None\<rparr>"

definition full_run_sorted :: "(unit, unit) sorted_voids" where
  "full_run_sorted =
     \<lparr>sv_voids = [[0, 1], [1]], sv_vrads = [Fin 2, Fin 0], sv_vcens = [(), ()], sv_vaxes = [(), ()],
      sv_zvoid = [(0, 0), (1, 0), (- 1, - 1)], sv_minrad = Fin (- 1)\<rparr>"

text \<open>
  A run of four cells of volume 45, each a zone, and one entry of four levels: with
  \<open>dc = 2\<close> the bound is \<open>45 / 2\<close>. In \<open>descending_voids\<close> the level volumes descend; in
  \<open>uneven_voids\<close> the fourth level, of volume 40, follows a level of volume 10.
\<close>

definition levels_tess :: Tesselation where
  "levels_tess = \<lparr>volumes = [45, 45, 45, 45]\<rparr>"

definition descending_voids :: Voids where
  "descending_voids =
     \<lparr>voids = [[[0], [1], [2], [3]]], mvols = [45], ovols = [[40, 30, 25, 10, 9]]\<rparr>"

definition uneven_voids :: Voids where
  "uneven_voids =
     \<lparr>voids = [[[0], [1], [2], [3]]], mvols = [45], ovols = [[30, 25, 10, 40, 9]]\<rparr>"

definition descending_run :: "(unit, unit, unit) Zobov" where
  "descending_run =
     \<lparr>catalog = Some \<lparr>coord = [(), (), (), ()], nnls = [0, 1, 2, 3]\<rparr>,
      tesselation = Some levels_tess,
      zones = Some \<lparr>zcell = [[0], [1], [2], [3]], zvols = [45, 45, 45, 45]\<rparr>,
      prevoids = Some descending_voids,
      minrad = Some (Fin 0),
      vrads = None, vcens = None, vaxes = None, zvoid = None\<rparr>"

definition uneven_run :: "(unit, unit, unit) Zobov" where
  "uneven_run = descending_run\<lparr>prevoids := Some uneven_voids\<rparr>"

section \<open>Properties of combine\_holes\<close>

subsection \<open>Finite overlap volumes\<close>

lemma cap_height_fin: "d \<noteq> 0 \<Longrightarrow> cap_height R r d = Fin ((r - R + d) * (r + R - d) / (2 * d))"
  by (simp add: cap_height_def)

lemma spherical_cap_volume_fin:
  "spherical_cap_volume rad (Fin h) = Fin (pi * h\<^sup>2 * (3 * rad - h) / 3)"
  by (simp add: spherical_cap_volume_def np_sub_def power2_eq_square)

lemma two_caps: "(pi::real) * a * b / 3 + pi * c * e / 3 = pi * (a * b + c * e) / 3"
  by (simp add: distrib_left add_divide_distrib mult.assoc)

lemma overlap_volume_fin:
  assumes "d \<noteq> 0"
  shows "overlap_volume r R d = Fin (pi * caps r R d / 3)"
proof -
  define h1 where "h1 = (R - r + d) * (R + r - d) / (2 * d)"
  define h2 where "h2 = (r - R + d) * (r + R - d) / (2 * d)"
  have c1: "cap_height r R d = Fin h1" and c2: "cap_height R r d = Fin h2"
    using assms by (simp_all add: cap_height_fin h1_def h2_def)
  have "overlap_volume r R d =
          np_add (Fin (pi * h1\<^sup>2 * (3 * r - h1) / 3)) (Fin (pi * h2\<^sup>2 * (3 * R - h2) / 3))"
    by (simp only: overlap_volume_def c1 c2 spherical_cap_volume_fin)
  also have "\<dots> = Fin (pi * (h1\<^sup>2 * (3 * r - h1) + h2\<^sup>2 * (3 * R - h2)) / 3)"
    by (simp only: np_add.simps two_caps)
  finally show ?thesis by (simp only: caps_def h1_def h2_def)
qed

lemma overlap_volume_zero: "overlap_volume r R 0 = NaN"
  by (simp add: overlap_volume_def cap_height_def spherical_cap_volume_def np_sub_def signed_inf_def
      mult_less_0_iff zero_less_mult_iff)

lemma separation_on_axis:
  "cy m = cy s \<Longrightarrow> cz m = cz s \<Longrightarrow> separation m s = \<bar>cx m - cx s\<bar>"
  by (simp add: separation_def)

subsection \<open>The loop of phase 1\<close>

lemma phase1_step_eq:
  "phase1_step tbl fr i (n, ms) = (if accepted tbl fr ms i then (n + 1, ms @ [i]) else (n, ms))"
  by (auto simp: phase1_step_def accepted_def strictly_inside_def over_fraction_def Let_def
      list_ex_iff list_all_iff filter_empty_conv split: prod.splits)

lemma phase1_fold_shape:
  "distinct js \<Longrightarrow>
   \<exists>ys. fold (phase1_step tbl fr) js (n, ms) = (n + length ys, ms @ ys) \<and> set ys \<subseteq> set js \<and> distinct ys"
proof (induction js arbitrary: n ms)
  case Nil
  then show ?case by simp
next
  case (Cons j js)
  show ?case
  proof (cases "accepted tbl fr ms j")
    case True
    from Cons.IH[of "n + 1" "ms @ [j]"] Cons.prems
    obtain ys where ys: "fold (phase1_step tbl fr) js (n + 1, ms @ [j]) = (n + 1 + length ys, (ms @ [j]) @ ys)"
      "set ys \<subseteq> set js" "distinct ys" by auto
    have "fold (phase1_step tbl fr) (j # js) (n, ms) = (n + length (j # ys), ms @ (j # ys))"
      using True ys(1) by (simp add: phase1_step_eq)
    moreover have "set (j # ys) \<subseteq> set (j # js)" using ys(2) by auto
    moreover have "distinct (j # ys)" using ys(2,3) Cons.prems by auto
    ultimately show ?thesis by blast
  next
    case False
    from Cons.IH[of n ms] Cons.prems
    obtain ys where ys: "fold (phase1_step tbl fr) js (n, ms) = (n + length ys, ms @ ys)"
      "set ys \<subseteq> set js" "distinct ys" by auto
    have "fold (phase1_step tbl fr) (j # js) (n, ms) = (n + length ys, ms @ ys)"
      using False ys(1) by (simp add: phase1_step_eq)
    moreover have "set ys \<subseteq> set (j # js)" using ys(2) by auto
    ultimately show ?thesis using ys(3) by blast
  qed
qed

lemma phase1_shape:
  "\<exists>ys. phase1 tbl fr = (1 + length ys, 0 # ys) \<and> set ys \<subseteq> {1..<N_large_spheres tbl} \<and> distinct ys"
  using phase1_fold_shape[of "[1..<N_large_spheres tbl]" tbl fr 1 "[0]"]
  by (auto simp: phase1_def)

lemma maximal_indices_bound:
  "m \<in> set (maximal_spheres_indices tbl fr) \<Longrightarrow> m = 0 \<or> (1 \<le> m \<and> m < N_large_spheres tbl)"
  using phase1_shape[of tbl fr] by (auto simp: maximal_spheres_indices_def)

lemma phase1_blocked:
  assumes a: "a \<in> set (maximal_spheres_indices tbl fr)" and ab: "a < b"
    and blk: "strictly_inside (tbl ! b) (tbl ! a) \<or> over_fraction fr (tbl ! b) (tbl ! a)"
  shows "b \<notin> set (maximal_spheres_indices tbl fr)"
proof (cases "b < N_large_spheres tbl")
  case False
  then show ?thesis using maximal_indices_bound[of b tbl fr] ab by auto
next
  case True
  let ?f = "phase1_step tbl fr"
  have split: "[1..<N_large_spheres tbl] = [1..<b] @ b # [Suc b..<N_large_spheres tbl]"
  proof -
    have b1: "1 \<le> b" using ab by simp
    have "[1..<N_large_spheres tbl] = [1..<b + (N_large_spheres tbl - b)]" using True by simp
    also have "\<dots> = [1..<b] @ [b..<b + (N_large_spheres tbl - b)]"
      using b1 by (rule upt_add_eq_append)
    also have "[b..<b + (N_large_spheres tbl - b)] = b # [Suc b..<N_large_spheres tbl]"
      using True by (simp add: upt_conv_Cons)
    finally show ?thesis .
  qed
  obtain ys1 where s1: "fold ?f [1..<b] (1, [0]) = (1 + length ys1, [0] @ ys1)" "set ys1 \<subseteq> set [1..<b]"
    using phase1_fold_shape[of "[1..<b]" tbl fr 1 "[0]"] by auto
  define st where "st = ?f b (1 + length ys1, [0] @ ys1)"
  obtain ys2 where s2: "fold ?f [Suc b..<N_large_spheres tbl] st = (fst st + length ys2, snd st @ ys2)"
      "set ys2 \<subseteq> set [Suc b..<N_large_spheres tbl]"
    using phase1_fold_shape[of "[Suc b..<N_large_spheres tbl]" tbl fr "fst st" "snd st"] by auto
  have fin: "maximal_spheres_indices tbl fr = snd st @ ys2"
    unfolding maximal_spheres_indices_def phase1_def split using s1(1) s2(1) by (simp add: st_def)
  have sub: "set (snd st) \<subseteq> set ([0] @ ys1) \<union> {b}"
    by (auto simp: st_def phase1_step_eq split: if_splits)
  have "a \<notin> set ys2" using s2(2) ab by auto
  with a fin sub ab have a1: "a \<in> set ([0] @ ys1)" by auto
  then have "\<not> accepted tbl fr ([0] @ ys1) b"
    using blk unfolding accepted_def list_ex_iff by blast
  then have "snd st = [0] @ ys1" by (simp add: st_def phase1_step_eq)
  moreover have "b \<notin> set ([0] @ ys1)" using s1(2) ab by auto
  moreover have "b \<notin> set ys2" using s2(2) by auto
  ultimately show ?thesis using fin by simp
qed

subsection \<open>The loop of phase 2\<close>

lemma zip_filter_snd:
  "length ks = length xs \<Longrightarrow> map snd (filter (\<lambda>(k, a). Q a) (zip ks xs)) = filter Q xs"
  by (induction ks xs rule: list_induct2) auto

lemma enumerate_nth:
  "(k, a) \<in> set (zip [0..<length xs] xs) \<Longrightarrow> xs ! k = a"
  by (auto simp: in_set_zip)

lemma zip_filter_key:
  "distinct ms \<Longrightarrow> length ms = length ys \<Longrightarrow> i \<in> set ms \<Longrightarrow>
   \<exists>b. filter (\<lambda>(m, row). m = i) (zip ms ys) = [(i, b)]"
proof (induction ms ys rule: list_induct2')
  case (4 m ms b ys)
  show ?case
  proof (cases "m = i")
    case True
    with 4 have "i \<notin> set ms" by auto
    then have "filter (\<lambda>(m, row). m = i) (zip ms ys) = []"
      by (auto simp: filter_empty_conv dest: set_zip_leftD)
    with True show ?thesis by simp
  next
    case False
    with 4 show ?thesis by auto
  qed
qed auto

lemma phase2_step_maximal:
  assumes "distinct ms" "length mtab = length ms" "i \<in> set ms"
  shows "\<exists>f. phase2_step tbl mtab ms i st = Inr (st\<lparr>flag_col := (flag_col st)[i := f]\<rparr>)"
proof -
  obtain b where "filter (\<lambda>(m, row). m = i) (zip ms mtab) = [(i, b)]"
    using zip_filter_key[OF assms(1) assms(2)[symmetric] assms(3)] by blast
  then have "phase2_step tbl mtab ms i st = Inr (st\<lparr>flag_col := (flag_col st)[i := snd b]\<rparr>)"
    using assms(3) by (simp add: phase2_step_def assign_flag_def)
  then show ?thesis by blast
qed

lemma phase2_step_other:
  assumes "i \<notin> set ms"
  shows "phase2_step tbl mtab ms i st =
           Inr (if is_hole tbl mtab ms i
                then \<lparr>flag_col = (flag_col st)[i := hole_flag mtab (tbl ! i)],
                      holes_indices = holes_indices st @ [i], N_holes = N_holes st + 1\<rparr>
                else st)"
proof -
  let ?E = "zip [0..<length mtab] mtab"
  let ?g = "\<lambda>(k, row). (k, radius (fst row), separation (fst row) (tbl ! i))"
  let ?r = "radius (tbl ! i)"
  let ?maximal = "map ?g ?E"
  let ?overlapping = "filter (\<lambda>(k, R, d). d \<le> ?r + R) ?maximal"
  let ?overlap2 = "filter (\<lambda>(k, R, d). np_less (Fin (0.5 * sphere_volume ?r)) (overlap_volume ?r R d)) ?overlapping"
  let ?F = "filter (\<lambda>(k, row). exceeds_half (tbl ! i) (fst row)) ?E"
  have inside: "list_ex (\<lambda>(k, R, d). R - ?r > d) ?maximal
                  \<longleftrightarrow> list_ex (\<lambda>row. strictly_inside (tbl ! i) (fst row)) mtab"
  proof -
    have "list_ex (\<lambda>(k, R, d). R - ?r > d) ?maximal
            \<longleftrightarrow> (\<exists>p \<in> set ?E. strictly_inside (tbl ! i) (fst (snd p)))"
      by (simp add: list_ex_iff strictly_inside_def case_prod_unfold)
    also have "\<dots> \<longleftrightarrow> (\<exists>row \<in> snd ` set ?E. strictly_inside (tbl ! i) (fst row))"
      by blast
    also have "snd ` set ?E = set mtab"
      using set_map[of snd ?E] by simp
    finally show ?thesis by (simp only: list_ex_iff)
  qed
  have o2: "?overlap2 = map ?g ?F"
    by (simp add: filter_map comp_def exceeds_half_def case_prod_unfold conj_commute)
  have sndF: "map snd ?F = filter (\<lambda>row. exceeds_half (tbl ! i) (fst row)) mtab"
    by (rule zip_filter_snd) simp
  have len: "length ?overlap2 = length (filter (\<lambda>row. exceeds_half (tbl ! i) (fst row)) mtab)"
  proof -
    have "length ?overlap2 = length (map snd ?F)" by (simp only: o2 length_map)
    then show ?thesis by (simp only: sndF)
  qed
  have flags: "map (\<lambda>(k, R, d). snd (mtab ! k)) ?overlap2
                 = map snd (filter (\<lambda>row. exceeds_half (tbl ! i) (fst row)) mtab)"
  proof -
    have "map (\<lambda>(k, R, d). snd (mtab ! k)) ?overlap2 = map (\<lambda>(k, R, d). snd (mtab ! k)) (map ?g ?F)"
      by (simp only: o2)
    also have "\<dots> = map (\<lambda>(k, row). snd (mtab ! k)) ?F"
      by (simp add: comp_def case_prod_unfold)
    also have "\<dots> = map (\<lambda>(k, row). snd row) ?F"
      by (rule map_cong) (auto dest: enumerate_nth)
    also have "\<dots> = map snd (map snd ?F)" by (simp add: comp_def case_prod_unfold)
    finally show ?thesis by (simp only: sndF)
  qed
  let ?EH = "\<lambda>row. exceeds_half (tbl ! i) (fst row)"
  have ne: "?overlapping \<noteq> []" if "length (filter ?EH mtab) = 1"
  proof
    assume a: "?overlapping = []"
    have "?overlap2 = []" unfolding a by simp
    then have "length ?overlap2 = 0" by (simp only: list.size)
    with that show False by (simp only: len)
  qed
  have "phase2_step tbl mtab ms i st =
          (if list_ex (\<lambda>(k, R, d). R - ?r > d) ?maximal then Inr st
           else if ?overlapping \<noteq> [] then
             (if length ?overlap2 = 1 then
                (case assign_flag (flag_col st) i (map (\<lambda>(k, R, d). snd (mtab ! k)) ?overlap2) of
                   Inl e \<Rightarrow> Inl e
                 | Inr col \<Rightarrow> Inr \<lparr>flag_col = col, holes_indices = holes_indices st @ [i],
                                  N_holes = N_holes st + 1\<rparr>)
              else Inr st)
           else Inr st)"
    using assms by (simp only: phase2_step_def Let_def if_False)
  then have step: "phase2_step tbl mtab ms i st =
          (if list_ex (\<lambda>row. strictly_inside (tbl ! i) (fst row)) mtab then Inr st
           else if ?overlapping \<noteq> [] then
             (if length (filter ?EH mtab) = 1 then
                (case assign_flag (flag_col st) i (map snd (filter ?EH mtab)) of
                   Inl e \<Rightarrow> Inl e
                 | Inr col \<Rightarrow> Inr \<lparr>flag_col = col, holes_indices = holes_indices st @ [i],
                                  N_holes = N_holes st + 1\<rparr>)
              else Inr st)
           else Inr st)"
    by (simp only: inside len flags)
  show ?thesis
  proof (cases "is_hole tbl mtab ms i")
    case True
    then have ni: "\<not> list_ex (\<lambda>row. strictly_inside (tbl ! i) (fst row)) mtab"
      and l1: "length (filter ?EH mtab) = 1"
      by (simp_all add: is_hole_def)
    from l1 obtain row where row: "filter ?EH mtab = [row]"
      by (metis length_0_conv length_Suc_conv One_nat_def)
    have fl: "assign_flag (flag_col st) i (map snd (filter ?EH mtab))
                = Inr ((flag_col st)[i := hole_flag mtab (tbl ! i)])"
      by (simp add: row hole_flag_def assign_flag_def)
    show ?thesis
      unfolding step using True ni ne[OF l1] l1 by (simp add: fl)
  next
    case False
    then have "list_ex (\<lambda>row. strictly_inside (tbl ! i) (fst row)) mtab \<or> length (filter ?EH mtab) \<noteq> 1"
      using assms by (simp add: is_hole_def)
    then show ?thesis
      unfolding step using False by auto
  qed
qed

lemma phase2_loop:
  assumes ms: "distinct ms" "length mtab = length ms"
    and js: "distinct js" "\<forall>j \<in> set js. j < length (flag_col st)"
  shows "\<exists>st'. run_loop (phase2_step tbl mtab ms) js st = Inr st' \<and>
           holes_indices st' = holes_indices st @ filter (is_hole tbl mtab ms) js \<and>
           length (flag_col st') = length (flag_col st) \<and>
           (\<forall>i. i \<notin> set js \<longrightarrow> flag_col st' ! i = flag_col st ! i) \<and>
           (\<forall>i \<in> set js. is_hole tbl mtab ms i \<longrightarrow> flag_col st' ! i = hole_flag mtab (tbl ! i))"
  using js
proof (induction js arbitrary: st)
  case Nil
  then show ?case by simp
next
  case (Cons j js)
  let ?f = "phase2_step tbl mtab ms"
  have "\<exists>s1. ?f j st = Inr s1 \<and>
          holes_indices s1 = holes_indices st @ filter (is_hole tbl mtab ms) [j] \<and>
          length (flag_col s1) = length (flag_col st) \<and>
          (\<forall>i. i \<noteq> j \<longrightarrow> flag_col s1 ! i = flag_col st ! i) \<and>
          (is_hole tbl mtab ms j \<longrightarrow> flag_col s1 ! j = hole_flag mtab (tbl ! j))"
  proof (cases "j \<in> set ms")
    case True
    then obtain f where "?f j st = Inr (st\<lparr>flag_col := (flag_col st)[j := f]\<rparr>)"
      using phase2_step_maximal[OF ms] by blast
    moreover have "\<not> is_hole tbl mtab ms j" using True by (simp add: is_hole_def)
    ultimately show ?thesis by simp
  next
    case False
    show ?thesis using Cons.prems(2) by (simp add: phase2_step_other[OF False])
  qed
  then obtain s1 where s1: "?f j st = Inr s1"
      "holes_indices s1 = holes_indices st @ filter (is_hole tbl mtab ms) [j]"
      "length (flag_col s1) = length (flag_col st)"
      "\<forall>i. i \<noteq> j \<longrightarrow> flag_col s1 ! i = flag_col st ! i"
      "is_hole tbl mtab ms j \<longrightarrow> flag_col s1 ! j = hole_flag mtab (tbl ! j)"
    by blast
  have "distinct js" "\<forall>j \<in> set js. j < length (flag_col s1)"
    using Cons.prems s1(3) by auto
  from Cons.IH[OF this] obtain st' where st': "run_loop ?f js s1 = Inr st'"
      "holes_indices st' = holes_indices s1 @ filter (is_hole tbl mtab ms) js"
      "length (flag_col st') = length (flag_col s1)"
      "\<forall>i. i \<notin> set js \<longrightarrow> flag_col st' ! i = flag_col s1 ! i"
      "\<forall>i \<in> set js. is_hole tbl mtab ms i \<longrightarrow> flag_col st' ! i = hole_flag mtab (tbl ! i)"
    by blast
  have jn: "j \<notin> set js" using Cons.prems(1) by simp
  have "run_loop ?f (j # js) st = Inr st'" using s1(1) st'(1) by simp
  moreover have "holes_indices st' = holes_indices st @ filter (is_hole tbl mtab ms) (j # js)"
    using s1(2) st'(2) by simp
  moreover have "length (flag_col st') = length (flag_col st)" using s1(3) st'(3) by simp
  moreover have "\<forall>i. i \<notin> set (j # js) \<longrightarrow> flag_col st' ! i = flag_col st ! i"
    using s1(4) st'(4) by simp
  moreover have "\<forall>i \<in> set (j # js). is_hole tbl mtab ms i \<longrightarrow> flag_col st' ! i = hole_flag mtab (tbl ! i)"
    using s1(5) st'(4,5) jn by auto
  ultimately show ?case by blast
qed

lemma maximal_indices_distinct: "distinct (maximal_spheres_indices tbl fr)"
  using phase1_shape[of tbl fr] by (auto simp: maximal_spheres_indices_def)

lemma N_large_le: "N_large_spheres tbl \<le> length tbl"
  by (simp add: N_large_spheres_def)

lemma phase1_N_voids: "phase1 tbl fr = (length (maximal_spheres_indices tbl fr), maximal_spheres_indices tbl fr)"
  using phase1_shape[of tbl fr] by (auto simp: maximal_spheres_indices_def)

lemma maximal_indices_in_table:
  "tbl \<noteq> [] \<Longrightarrow> m \<in> set (maximal_spheres_indices tbl fr) \<Longrightarrow> m < length tbl"
  using maximal_indices_bound[of m tbl fr] N_large_le[of tbl] by auto

lemma maximal_indices_zero: "0 \<in> set (maximal_spheres_indices tbl fr)"
  using phase1_shape[of tbl fr] by (auto simp: maximal_spheres_indices_def)

lemma combine_holes_empty: "combine_holes [] fr = Inl IndexError"
  by (simp add: combine_holes_def phase1_def N_large_spheres_def)

lemma combine_holes_closed:
  fixes tbl :: "sphere list" and fr :: real
  assumes "tbl \<noteq> []"
  defines "ms \<equiv> maximal_spheres_indices tbl fr"
  defines "mt \<equiv> maximal_table tbl ms (length ms)"
  shows "combine_holes tbl fr = Inr (mt, hole_table tbl mt ms)"
proof -
  have d: "distinct ms" by (simp add: ms_def maximal_indices_distinct)
  have l: "length mt = length ms" by (simp add: mt_def maximal_table_def)
  have inr: "list_all (\<lambda>m. m < length tbl) ms"
    using maximal_indices_in_table[OF assms(1)] by (auto simp: list_all_iff ms_def)
  let ?st0 = "\<lparr>flag_col = replicate (length tbl) (- 1), holes_indices = [], N_holes = 0\<rparr>"
  have "distinct [0..<length tbl]" "\<forall>j \<in> set [0..<length tbl]. j < length (flag_col ?st0)"
    by simp_all
  from phase2_loop[OF d l this, of tbl] obtain st' where st':
    "run_loop (phase2_step tbl mt ms) [0..<length tbl] ?st0 = Inr st'"
    "holes_indices st' = holes_indices ?st0 @ filter (is_hole tbl mt ms) [0..<length tbl]"
    "\<forall>i \<in> set [0..<length tbl]. is_hole tbl mt ms i \<longrightarrow> flag_col st' ! i = hole_flag mt (tbl ! i)"
    by blast
  have p2: "phase2 tbl ms (length ms) = Inr st'"
    using st'(1) by (simp add: phase2_def mt_def)
  have "map (\<lambda>i. (tbl ! i, flag_col st' ! i)) (holes_indices st')
          = map (\<lambda>i. (tbl ! i, hole_flag mt (tbl ! i))) (filter (is_hole tbl mt ms) [0..<length tbl])"
    using st'(2,3) by (auto intro!: map_cong)
  then show ?thesis
    using inr p2
    by (simp add: combine_holes_def phase1_N_voids hole_table_def ms_def[symmetric] mt_def[symmetric])
qed

lemma descending_large:
  "radius_descending tbl \<Longrightarrow> i < N_large_spheres tbl \<Longrightarrow> radius (tbl ! i) > 10"
proof (induction tbl arbitrary: i)
  case Nil
  then show ?case by (simp add: N_large_spheres_def)
next
  case (Cons s tbl)
  show ?case
  proof (cases "radius s > 10")
    case True
    with Cons show ?thesis
      by (cases i) (auto simp: N_large_spheres_def radius_descending_def)
  next
    case False
    with Cons.prems(1) have "filter (\<lambda>s. radius s > 10) tbl = []"
      by (auto simp: filter_empty_conv radius_descending_def)
    with False Cons.prems(2) show ?thesis by (simp add: N_large_spheres_def)
  qed
qed

lemma maximal_table_rows:
  "map fst (maximal_table tbl ms (length ms)) = map (\<lambda>m. tbl ! m) ms"
  by (simp add: maximal_table_def)

lemmas eval_combine =
  combine_holes_def phase1_def N_large_spheres_def phase1_step_def phase2_def phase2_step_def
  maximal_table_def assign_flag_def separation_on_axis overlap_volume_fin sphere_volume_def
  caps_def Let_def numeral_2_eq_2 numeral_3_eq_3 upt_rec power2_eq_square power3_eq_cube

subsection \<open>The seed threshold\<close>

text \<open>
  Where the largest sphere of a radius-descending table is above the threshold, every
  maximal sphere is, and the largest sphere is the first row of the output, with flag 1.
\<close>

lemma maximal_above_threshold:
  assumes "radius_descending tbl" "tbl \<noteq> []" "radius (tbl ! 0) > 10"
    and "combine_holes tbl fr = Inr (mt, ht)" "row \<in> set mt"
  shows "radius (fst row) > 10 \<and> mt ! 0 = (tbl ! 0, 1)"
proof -
  let ?ms = "maximal_spheres_indices tbl fr"
  have mt: "mt = maximal_table tbl ?ms (length ?ms)"
    using assms(4) combine_holes_closed[OF assms(2), of fr] by simp
  have N: "0 < N_large_spheres tbl"
    using assms(2,3) by (cases tbl) (auto simp: N_large_spheres_def)
  from assms(5) have "fst row \<in> set (map fst mt)" by simp
  then obtain m where m: "m \<in> set ?ms" "fst row = tbl ! m"
    unfolding mt maximal_table_rows by auto
  then have "m < N_large_spheres tbl" using maximal_indices_bound[of m tbl fr] N by auto
  then have 1: "radius (fst row) > 10" using descending_large[OF assms(1)] m(2) by simp
  obtain ys where "?ms = 0 # ys" using phase1_shape[of tbl fr] by (auto simp: maximal_spheres_indices_def)
  then have "mt ! 0 = (tbl ! 0, 1)" unfolding mt by (simp add: maximal_table_def upt_rec)
  with 1 show ?thesis by simp
qed

text \<open>
  C1. Every sphere in the maximal-sphere output has radius above the seed threshold of 10,
  and the largest qualifying sphere is maximal with void id 1. The code appends index 0
  before it looks at any radius, so on a table whose largest sphere is not above the
  threshold the output holds that sphere: here a table of one sphere of radius 5.
\<close>

theorem seed_below_threshold_is_maximal:
  "radius_descending [small_sphere] \<and> \<not> radius small_sphere > 10 \<and>
   combine_holes [small_sphere] (1 / 10) = Inr ([(small_sphere, 1)], [])"
  by (simp add: radius_descending_def small_sphere_def combine_holes_def phase1_def
      N_large_spheres_def phase2_def phase2_step_def maximal_table_def assign_flag_def)

subsection \<open>Containment\<close>

text \<open>
  Where B touches A from inside (\<open>d + rB = rA\<close>, \<open>d > 0\<close>), the cap of B is all of B and
  the cap of A is empty: the overlap volume is the volume of B, above \<open>fr\<close> times that
  volume for every \<open>fr < 1\<close>.
\<close>

lemma separation_nonneg: "0 \<le> separation m s"
  by (simp add: separation_def)

lemma separation_zero:
  assumes "separation m s = 0"
  shows "cx m = cx s \<and> cy m = cy s \<and> cz m = cz s"
proof -
  from assms have "(cx m - cx s)\<^sup>2 + (cy m - cy s)\<^sup>2 + (cz m - cz s)\<^sup>2 = 0"
    by (simp add: separation_def)
  then have "(cx m - cx s)\<^sup>2 = 0 \<and> (cy m - cy s)\<^sup>2 = 0 \<and> (cz m - cz s)\<^sup>2 = 0"
    by (smt (verit) zero_le_power2)
  then show ?thesis by simp
qed

lemma caps_internal_tangent:
  assumes "d \<noteq> 0"
  shows "caps r (d + r) d = 4 * r ^ 3"
proof -
  have h1: "(d + r - r + d) * (d + r + r - d) / (2 * d) = 2 * r"
    using assms by (simp add: field_simps)
  have h2: "(r - (d + r) + d) * (r + (d + r) - d) / (2 * d) = 0"
    by simp
  show ?thesis unfolding caps_def h1 h2 by (simp add: power2_eq_square power3_eq_cube)
qed

lemma internal_tangent_over_fraction:
  assumes d: "0 < separation A B" and t: "separation A B + radius B = radius A"
    and fr: "fr < 1" and r: "0 < radius B"
  shows "over_fraction fr B A"
proof -
  let ?d = "separation A B" and ?r = "radius B"
  have RA: "radius A = ?d + ?r" using t by simp
  have ov: "overlap_volume ?r (?d + ?r) ?d = Fin (sphere_volume ?r)"
    using d by (simp add: overlap_volume_fin caps_internal_tangent sphere_volume_def)
  have pos: "0 < sphere_volume ?r" using r by (simp add: sphere_volume_def)
  have "\<not> sphere_volume ?r \<le> fr * sphere_volume ?r"
  proof
    assume "sphere_volume ?r \<le> fr * sphere_volume ?r"
    then have "1 * sphere_volume ?r \<le> fr * sphere_volume ?r" by simp
    then have "1 \<le> fr" using pos by (simp only: mult_le_cancel_right_pos)
    with fr show False by simp
  qed
  then show ?thesis
    using d r by (simp add: over_fraction_def RA ov)
qed

text \<open>
  C7, as stated: a sphere B that is fully contained in a sphere A of the candidate set
  (\<open>d + rB \<le> rA\<close>) is never a maximal sphere. It fails where A itself is not maximal:
  \<open>mid_sphere\<close> overlaps \<open>big_sphere\<close> by more than a tenth of its volume and is dropped,
  and \<open>inner_sphere\<close>, inside \<open>mid_sphere\<close> and clear of \<open>big_sphere\<close>, is a maximal sphere.
\<close>

theorem sphere_inside_dropped_sphere_is_maximal:
  "radius_descending [big_sphere, mid_sphere, inner_sphere] \<and>
   separation mid_sphere inner_sphere + radius inner_sphere \<le> radius mid_sphere \<and>
   combine_holes [big_sphere, mid_sphere, inner_sphere] (1 / 10)
     = Inr ([(big_sphere, 1), (inner_sphere, 2)], [])"
  using pi_gt_zero
  by (simp add: eval_combine radius_descending_def big_sphere_def mid_sphere_def inner_sphere_def)

text \<open>
  C7, amended: in a radius-descending candidate set, a sphere B that is fully contained in
  a sphere A of the maximal-sphere output never appears in the maximal-sphere output:
  where B lies strictly inside A (\<open>rA - rB > d\<close>, the test of the code), for every \<open>frac\<close>;
  and where B is another sphere than A with \<open>d + rB \<le> rA\<close>, for \<open>frac < 1\<close>. On the
  boundary \<open>d + rB = rA\<close> the containment test does not fire, and the overlap test drops B.
\<close>

theorem contained_in_maximal_never_maximal:
  assumes desc: "radius_descending tbl"
    and run: "combine_holes tbl fr = Inr (mt, ht)"
    and A: "A \<in> fst ` set mt"
    and inside: "strictly_inside B A \<or>
                 (B \<noteq> A \<and> separation A B + radius B \<le> radius A \<and> fr < 1)"
  shows "B \<notin> fst ` set mt"
proof
  assume B: "B \<in> fst ` set mt"
  let ?ms = "maximal_spheres_indices tbl fr"
  have ne: "tbl \<noteq> []" using run by (auto simp: combine_holes_empty)
  have mt: "mt = maximal_table tbl ?ms (length ?ms)"
    using run combine_holes_closed[OF ne, of fr] by simp
  have rows: "fst ` set mt = (\<lambda>m. tbl ! m) ` set ?ms"
    using maximal_table_rows[of tbl ?ms] unfolding mt by (metis set_map)
  from A rows obtain a where a: "a \<in> set ?ms" "A = tbl ! a" by auto
  from B rows obtain b where b: "b \<in> set ?ms" "B = tbl ! b" by auto
  have la: "a < length tbl" and lb: "b < length tbl"
    using a(1) b(1) maximal_indices_in_table[OF ne] by auto
  have BA: "B \<noteq> A"
    using inside separation_nonneg[of A B] by (auto simp: strictly_inside_def)
  then have ab: "a \<noteq> b" using a(2) b(2) by auto
  have le: "radius B \<le> radius A"
    using inside separation_nonneg[of A B] by (auto simp: strictly_inside_def)
  have order: "a < b \<or> (b < a \<and> radius A = radius B)"
  proof (cases "a < b")
    case False
    with ab have "b < a" by simp
    then have "radius (tbl ! b) \<ge> radius (tbl ! a)"
      using sorted_wrt_nth_less[of "\<lambda>s t. radius s \<ge> radius t" tbl b a] desc la
      by (simp add: radius_descending_def)
    with le \<open>b < a\<close> show ?thesis by (simp add: a(2) b(2))
  qed simp
  have same: "radius A = radius B \<Longrightarrow> False"
  proof -
    assume eq: "radius A = radius B"
    with inside separation_nonneg[of A B] have "separation A B = 0"
      by (auto simp: strictly_inside_def)
    from separation_zero[OF this] eq have "A = B" by simp
    with BA show False by simp
  qed
  with order have "a < b" by blast
  then have "1 \<le> b" by simp
  have "b < N_large_spheres tbl"
    using maximal_indices_bound[of b tbl fr] b(1) \<open>1 \<le> b\<close> by auto
  then have rB: "0 < radius B" using descending_large[OF desc, of b] b(2) by simp
  have blocked: "strictly_inside B A \<or> over_fraction fr B A"
  proof (cases "strictly_inside B A")
    case False
    with inside have h: "separation A B + radius B = radius A" "fr < 1"
      by (auto simp: strictly_inside_def)
    have "separation A B \<noteq> 0" using h(1) same by auto
    then have "0 < separation A B" using separation_nonneg[of A B] by simp
    from internal_tangent_over_fraction[OF this h rB] show ?thesis by simp
  qed simp
  then have "b \<notin> set ?ms"
    using phase1_blocked[OF a(1) \<open>a < b\<close>] by (simp add: a(2) b(2))
  with b(1) show False by simp
qed

theorem contained_in_maximal_never_maximal_witness:
  "radius_descending [big_sphere, nested_sphere] \<and>
   combine_holes [big_sphere, nested_sphere] (1 / 10) = Inr ([(big_sphere, 1)], []) \<and>
   big_sphere \<in> fst ` set [(big_sphere, 1 :: int)] \<and>
   strictly_inside nested_sphere big_sphere \<and>
   nested_sphere \<notin> fst ` set [(big_sphere, 1 :: int)] \<and>
   radius_descending [big_sphere, tangent_inside] \<and>
   combine_holes [big_sphere, tangent_inside] (1 / 10)
     = Inr ([(big_sphere, 1)], [(tangent_inside, 1)]) \<and>
   tangent_inside \<noteq> big_sphere \<and>
   separation big_sphere tangent_inside + radius tangent_inside \<le> radius big_sphere \<and>
   (1 / 10 :: real) < 1 \<and>
   tangent_inside \<notin> fst ` set [(big_sphere, 1 :: int)]"
proof -
  have h1: "radius_descending [big_sphere, nested_sphere]"
    by (simp add: radius_descending_def big_sphere_def nested_sphere_def)
  have h2: "combine_holes [big_sphere, nested_sphere] (1 / 10) = Inr ([(big_sphere, 1)], [])"
    by (simp add: eval_combine big_sphere_def nested_sphere_def)
  have h3: "big_sphere \<in> fst ` set [(big_sphere, 1 :: int)]" by simp
  have h4: "strictly_inside nested_sphere big_sphere"
    by (simp add: strictly_inside_def separation_on_axis big_sphere_def nested_sphere_def)
  from contained_in_maximal_never_maximal[OF h1 h2 h3 disjI1[OF h4]]
  have c: "nested_sphere \<notin> fst ` set [(big_sphere, 1 :: int)]" .
  have k1: "radius_descending [big_sphere, tangent_inside]"
    by (simp add: radius_descending_def big_sphere_def tangent_inside_def)
  have k2: "combine_holes [big_sphere, tangent_inside] (1 / 10)
              = Inr ([(big_sphere, 1)], [(tangent_inside, 1)])"
    using pi_gt_zero by (simp add: eval_combine big_sphere_def tangent_inside_def)
  have k4: "tangent_inside \<noteq> big_sphere" by (simp add: big_sphere_def tangent_inside_def)
  have k5: "separation big_sphere tangent_inside + radius tangent_inside \<le> radius big_sphere"
    by (simp add: separation_on_axis big_sphere_def tangent_inside_def)
  have k6: "(1 / 10 :: real) < 1" by simp
  from contained_in_maximal_never_maximal[OF k1 k2 h3 disjI2[OF conjI[OF k4 conjI[OF k5 k6]]]]
  have d: "tangent_inside \<notin> fst ` set [(big_sphere, 1 :: int)]" .
  show ?thesis using h1 h2 h3 h4 c k1 k2 k4 k5 k6 d by (intro conjI)
qed

subsection \<open>Holes\<close>



subsection \<open>Tangent spheres\<close>

text \<open>
  C8. Three spheres of one radius above 10, each pair tangent (the distance of the centres
  is the sum of the radii): with \<open>frac = 0.1\<close>, \<open>combine_holes\<close> returns the three as
  maximal spheres with the flags 1, 2, 3, and no hole.
\<close>

theorem three_tangent_spheres_all_maximal:
  assumes "radius a = r" "radius b = r" "radius c = r" "r > 10"
    and "separation a b = 2 * r" "separation a c = 2 * r" "separation b c = 2 * r"
  shows "combine_holes [a, b, c] (1 / 10) = Inr ([(a, 1), (b, 2), (c, 3)], [])"
proof -
  have r0: "2 * r \<noteq> 0" using assms(4) by simp
  have ov: "overlap_volume r r (2 * r) = Fin 0"
    using r0 by (simp add: overlap_volume_fin caps_def)
  have vol: "0 \<le> sphere_volume r"
    using assms(4) by (simp add: sphere_volume_def)
  have p1: "phase1 [a, b, c] (1 / 10) = (3, [0, 1, 2])"
    using assms vol
    by (simp add: phase1_def N_large_spheres_def phase1_step_def ov Let_def upt_rec
        numeral_2_eq_2 numeral_3_eq_3)
  show ?thesis
    using assms
    by (simp add: combine_holes_def p1 phase2_def phase2_step_def maximal_table_def
        assign_flag_def upt_rec numeral_2_eq_2 numeral_3_eq_3)
qed

lemma sqrt_484: "sqrt 484 = 22"
proof -
  have "sqrt 484 = sqrt (22\<^sup>2)" by simp
  also have "\<dots> = 22" by (simp only: real_sqrt_abs abs_numeral)
  finally show ?thesis .
qed

theorem three_tangent_spheres_all_maximal_witness:
  "radius tangent_a = 11 \<and> radius tangent_b = 11 \<and> radius tangent_c = 11 \<and> (11 :: real) > 10 \<and>
   separation tangent_a tangent_b = 2 * 11 \<and>
   separation tangent_a tangent_c = 2 * 11 \<and>
   separation tangent_b tangent_c = 2 * 11 \<and>
   combine_holes [tangent_a, tangent_b, tangent_c] (1 / 10)
     = Inr ([(tangent_a, 1), (tangent_b, 2), (tangent_c, 3)], [])"
proof -
  have r: "radius tangent_a = 11" "radius tangent_b = 11" "radius tangent_c = 11"
    by (simp_all add: tangent_a_def tangent_b_def tangent_c_def)
  have g: "(11 :: real) > 10" by simp
  have d: "separation tangent_a tangent_b = 2 * 11" "separation tangent_a tangent_c = 2 * 11"
      "separation tangent_b tangent_c = 2 * 11"
    by (simp_all add: separation_def tangent_a_def tangent_b_def tangent_c_def
        power_mult_distrib sqrt_484)
  from three_tangent_spheres_all_maximal[OF r g d]
  have c: "combine_holes [tangent_a, tangent_b, tangent_c] (1 / 10)
             = Inr ([(tangent_a, 1), (tangent_b, 2), (tangent_c, 3)], [])" .
  show ?thesis using r g d c by (intro conjI)
qed

subsection \<open>Coincident centres\<close>

text \<open>
  C9, as stated: \<open>combine_holes\<close> detects and rejects two overlapping spheres with one
  centre, so that \<open>cap_height\<close> is never evaluated with \<open>d = 0\<close>. The code has no such test.
  On a table of two equal spheres the second pass is not stopped by the containment test
  (\<open>R - r > d\<close> is \<open>0 > 0\<close>), the cap height is \<open>0 / 0\<close>, and the function returns its
  tables as on any other input.
\<close>

theorem coincident_centres_not_rejected:
  "separation twin_sphere twin_sphere = 0 \<and>
   cap_height (radius twin_sphere) (radius twin_sphere) (separation twin_sphere twin_sphere) = NaN \<and>
   combine_holes [twin_sphere, twin_sphere] (1 / 10) = Inr ([(twin_sphere, 1)], [])"
  by (simp add: combine_holes_def phase1_def N_large_spheres_def phase1_step_def phase2_def
      phase2_step_def maximal_table_def assign_flag_def separation_def overlap_volume_zero
      Let_def numeral_2_eq_2 upt_rec twin_sphere_def cap_height_def signed_inf_def)

text \<open>
  C9, amended: \<open>combine_holes\<close> rejects no geometry: it returns its two tables for every
  table that is not empty. \<open>cap_height\<close> is not guarded: for a sphere whose centre is the
  centre of an earlier maximal sphere the overlap volume is NaN, no comparison with it
  holds, and the sphere is left out of the maximal spheres without a report.
\<close>

theorem coincident_centre_silently_dropped:
  assumes ne: "tbl \<noteq> []"
    and a: "a \<in> set (maximal_spheres_indices tbl fr)" and ab: "a < b"
    and d0: "separation (tbl ! a) (tbl ! b) = 0"
    and rad: "0 \<le> radius (tbl ! b) + radius (tbl ! a)"
  shows "(\<exists>out. combine_holes tbl fr = Inr out) \<and>
         overlap_volume (radius (tbl ! b)) (radius (tbl ! a)) (separation (tbl ! a) (tbl ! b)) = NaN \<and>
         b \<notin> set (maximal_spheres_indices tbl fr)"
proof -
  have 1: "\<exists>out. combine_holes tbl fr = Inr out"
    using combine_holes_closed[OF ne, of fr] by blast
  have 2: "overlap_volume (radius (tbl ! b)) (radius (tbl ! a)) (separation (tbl ! a) (tbl ! b)) = NaN"
    by (simp add: d0 overlap_volume_zero)
  have "over_fraction fr (tbl ! b) (tbl ! a)"
    using rad by (simp add: over_fraction_def d0 overlap_volume_zero)
  then have 3: "b \<notin> set (maximal_spheres_indices tbl fr)"
    using phase1_blocked[OF a ab] by blast
  from 1 2 3 show ?thesis by blast
qed

theorem coincident_centre_silently_dropped_witness:
  "[twin_sphere, twin_sphere] \<noteq> [] \<and>
   0 \<in> set (maximal_spheres_indices [twin_sphere, twin_sphere] (1 / 10)) \<and>
   (0 :: nat) < 1 \<and>
   separation ([twin_sphere, twin_sphere] ! 0) ([twin_sphere, twin_sphere] ! 1) = 0 \<and>
   0 \<le> radius ([twin_sphere, twin_sphere] ! 1) + radius ([twin_sphere, twin_sphere] ! 0) \<and>
   (\<exists>out. combine_holes [twin_sphere, twin_sphere] (1 / 10) = Inr out) \<and>
   overlap_volume (radius ([twin_sphere, twin_sphere] ! 1)) (radius ([twin_sphere, twin_sphere] ! 0))
     (separation ([twin_sphere, twin_sphere] ! 0) ([twin_sphere, twin_sphere] ! 1)) = NaN \<and>
   1 \<notin> set (maximal_spheres_indices [twin_sphere, twin_sphere] (1 / 10))"
proof -
  let ?t = "[twin_sphere, twin_sphere]"
  have h1: "?t \<noteq> []" by simp
  have h2: "0 \<in> set (maximal_spheres_indices ?t (1 / 10))" by (rule maximal_indices_zero)
  have h3: "(0 :: nat) < 1" by simp
  have h4: "separation (?t ! 0) (?t ! 1) = 0" by (simp add: separation_def)
  have h5: "0 \<le> radius (?t ! 1) + radius (?t ! 0)" by (simp add: twin_sphere_def)
  from coincident_centre_silently_dropped[OF h1 h2 h3 h4 h5]
  have c: "(\<exists>out. combine_holes ?t (1 / 10) = Inr out) \<and>
     overlap_volume (radius (?t ! 1)) (radius (?t ! 0)) (separation (?t ! 0) (?t ! 1)) = NaN \<and>
     1 \<notin> set (maximal_spheres_indices ?t (1 / 10))" .
  show ?thesis using h1 h2 h3 h4 h5 c by (intro conjI) blast+
qed

section \<open>Properties of sortVoids\<close>

subsection \<open>Raising operations\<close>

lemma and_then_Inr: "and_then m f = Inr b \<longleftrightarrow> (\<exists>a. m = Inr a \<and> f a = Inr b)"
  by (cases m) (simp_all add: and_then_def)

lemma attr_Inr: "attr v = Inr a \<longleftrightarrow> v = Some a"
  by (cases v) (simp_all add: attr_def)

lemma map_err_Inr:
  "map_err f xs = Inr ys \<Longrightarrow> list_all2 (\<lambda>a b. f a = Inr b) xs ys"
  by (induction xs arbitrary: ys) (auto split: sum.splits)

lemma map_err_map:
  "(\<And>a. a \<in> set xs \<Longrightarrow> f a = Inr (g a)) \<Longrightarrow> map_err f xs = Inr (map g xs)"
  by (induction xs) auto

lemma map_err_eq_map:
  "map_err f xs = Inr ys \<Longrightarrow> (\<And>a b. a \<in> set xs \<Longrightarrow> f a = Inr b \<Longrightarrow> b = g a) \<Longrightarrow> ys = map g xs"
  by (induction xs arbitrary: ys) (auto split: sum.splits)

lemma if_Inl_Inr: "((if c then Inl e else m) = Inr b) \<longleftrightarrow> (\<not> c \<and> m = Inr b)"
  by simp

lemma mask_map: "mask xs (map p xs) = filter p xs"
  by (induction xs) (auto simp: mask_def)

lemma set_mask: "set (mask xs m) \<subseteq> set xs"
  by (auto simp: mask_def dest: set_zip_leftD)

lemma run_loop_invariant:
  assumes "run_loop f xs s = Inr s'" and "I s"
    and "\<And>a t t'. a \<in> set xs \<Longrightarrow> I t \<Longrightarrow> f a t = Inr t' \<Longrightarrow> I t'"
  shows "I s'"
  using assms
proof (induction xs arbitrary: s)
  case Nil
  then show ?case by simp
next
  case (Cons a xs)
  from Cons.prems(1) obtain t where t: "f a s = Inr t" and r: "run_loop f xs t = Inr s'"
    by (auto split: sum.splits)
  have "I t" using Cons.prems(3)[of a s t] Cons.prems(2) t by simp
  then show ?case
  proof (rule Cons.IH[OF r])
    fix b u u'
    assume "b \<in> set xs" "I u" "f b u = Inr u'"
    then show "I u'" using Cons.prems(3)[of b u u'] by simp
  qed
qed

lemma run_loop_total:
  assumes "I s" and "\<And>a t. a \<in> set xs \<Longrightarrow> I t \<Longrightarrow> \<exists>t'. f a t = Inr t' \<and> I t'"
  shows "\<exists>s'. run_loop f xs s = Inr s' \<and> I s'"
  using assms
proof (induction xs arbitrary: s)
  case Nil
  then show ?case by simp
next
  case (Cons a xs)
  from Cons.prems(2)[of a s] Cons.prems(1) obtain t where t: "f a s = Inr t" "I t" by auto
  have "\<exists>s'. run_loop f xs t = Inr s' \<and> I s'"
  proof (rule Cons.IH[OF t(2)])
    fix b u assume "b \<in> set xs" "I u"
    then show "\<exists>t'. f b u = Inr t' \<and> I t'" using Cons.prems(2)[of b u] by simp
  qed
  with t(1) show ?case by simp
qed

subsection \<open>The stages of a call\<close>

lemma measure_voids_Inr:
  assumes "measure_voids U tess cutco method dc minvol nzones minrad1 voids1 vcuts1 vvols1 vrads1 = Inr sv"
  shows "sv_minrad sv = minrad1 \<and>
         zvoid_build (sv_voids sv) nzones = Inr (sv_zvoid sv) \<and>
         (method \<noteq> 0 \<longrightarrow> sv_voids sv = voids1 \<and> sv_vrads sv = vrads1)"
proof -
  from assms obtain vcens1 arrays vaxes2 zv where
    a: "(if method = 0
         then (case minvol of
                 None \<Rightarrow> Inl UnboundLocalError
               | Some mv \<Rightarrow> Inr (method0_cuts U mv dc cutco (voids1, vrads1, vcens1, vvols1)))
         else Inr (voids1, vrads1, vcens1)) = Inr arrays"
    and zv: "zvoid_build (fst arrays) nzones = Inr zv"
    and sv: "sv = \<lparr>sv_voids = fst arrays, sv_vrads = fst (snd arrays), sv_vcens = snd (snd arrays),
          sv_vaxes = vaxes2, sv_zvoid = zv, sv_minrad = minrad1\<rparr>"
    unfolding measure_voids_def and_then_Inr by blast
  from a have "method \<noteq> 0 \<longrightarrow> arrays = (voids1, vrads1, vcens1)" by auto
  with zv sv show ?thesis by auto
qed

lemma sort_candidates_Inr:
  assumes "sort_candidates U z method dc cands minvol = Inr sv"
  shows "\<exists>zn tess vcuts vvols.
           zones z = Some zn \<and> tesselation z = Some tess \<and>
           candidate_cells zn cands = Inr vcuts \<and>
           candidate_volumes tess vcuts = Inr vvols \<and>
           (if method = 4 then Inr (np_median (map effective_radius vvols))
            else attr (minrad z)) = Inr (sv_minrad sv) \<and>
           (method \<noteq> 0 \<longrightarrow>
              sv_vrads sv = filter (np_less (sv_minrad sv)) (map effective_radius vvols) \<and>
              sv_voids sv = mask cands (map (np_less (sv_minrad sv)) (map effective_radius vvols))) \<and>
           zvoid_build (sv_voids sv) (length (zvols zn)) = Inr (sv_zvoid sv)"
proof -
  from assms obtain zn vcuts cat cutco tess vvols minrad1 where
    zn: "zones z = Some zn" and vcuts: "candidate_cells zn cands = Inr vcuts"
    and tess: "tesselation z = Some tess" and vvols: "candidate_volumes tess vcuts = Inr vvols"
    and mr: "(if method = 4 then Inr (np_median (map effective_radius vvols))
               else attr (minrad z)) = Inr minrad1"
    and mv: "measure_voids U tess cutco method dc minvol (length (zvols zn)) minrad1
            (mask cands (map (np_less minrad1) (map effective_radius vvols)))
            (mask vcuts (map (np_less minrad1) (map effective_radius vvols)))
            (mask vvols (map (np_less minrad1) (map effective_radius vvols)))
            (mask (map effective_radius vvols) (map (np_less minrad1) (map effective_radius vvols))) = Inr sv"
    unfolding sort_candidates_def and_then_Inr attr_Inr Let_def by blast
  from measure_voids_Inr[OF mv, unfolded mask_map] mr zn tess vcuts vvols show ?thesis
    by (auto simp del: map_map)
qed

lemma sortVoids_body_Some:
  assumes "sortVoids_body U z method minsig dc = Inr (out, Some sv)"
  shows "\<exists>cands minvol. select_candidates U z method minsig dc = Inr (Candidates cands minvol) \<and>
           sort_candidates U z method dc cands minvol = Inr sv"
proof -
  have g: "\<not> (prevoids z = None \<and> (method \<noteq> 4 \<or> zones z = None))"
    using assms unfolding sortVoids_body_def by (auto split: if_splits)
  from assms obtain sel where sel: "select_candidates U z method minsig dc = Inr sel"
    and r: "(case sel of
            Return_early msg \<Rightarrow> Inr ([Line ''Selecting void candidates...'', Line msg], None)
          | Candidates cands minvol \<Rightarrow>
              and_then (sort_candidates U z method dc cands minvol) (\<lambda>sv.
                Inr ([Line ''Selecting void candidates...'',
                      Line ''Void candidates selected...'',
                      Line ''Effective void radius calculated'',
                      Removed_voids_smaller_than (sv_minrad sv),
                      Line ''Finding void centers...'',
                      Line ''Calculating ellipsoid axes...''],
                     Some sv))) = Inr (out, Some sv)"
    unfolding sortVoids_body_def if_not_P[OF g] and_then_Inr by blast
  show ?thesis
  proof (cases sel)
    case (Candidates cands minvol)
    with r have "sort_candidates U z method dc cands minvol = Inr sv"
      by (auto simp: and_then_Inr)
    with sel Candidates show ?thesis by blast
  next
    case (Return_early msg)
    with r show ?thesis by simp
  qed
qed

lemma sortVoids_Inr:
  assumes "sortVoids U z method minsig dc = Inr (out, z')"
  shows "\<exists>res. sortVoids_body U z method minsig dc = Inr (out, res) \<and>
               z' = (case res of None \<Rightarrow> z | Some sv \<Rightarrow> store z sv)"
proof -
  from assms obtain p where p: "sortVoids_body U z method minsig dc = Inr p"
    and r: "(case p of (out, res) \<Rightarrow>
               case res of None \<Rightarrow> Inr (out, z) | Some sv \<Rightarrow> Inr (out, store z sv))
            = (Inr (out, z') :: error + _)"
    unfolding sortVoids_def and_then_Inr by blast
  obtain o1 res where pe: "p = (o1, res)" by (cases p)
  with r have "o1 = out" and "z' = (case res of None \<Rightarrow> z | Some sv \<Rightarrow> store z sv)"
    by (cases res; simp)+
  with p pe show ?thesis by blast
qed

lemma select_method4:
  "select_candidates U z 4 minsig dc = Inr sel \<Longrightarrow>
   \<exists>zn. zones z = Some zn \<and> sel = Candidates (map (\<lambda>k. [k]) [0..<length (zvols zn)]) None"
  by (auto simp: select_candidates_def and_then_Inr attr_Inr)

lemma body_method4_Some:
  assumes "sortVoids_body U z 4 minsig dc = Inr (out, res)"
    and "prevoids z \<noteq> None \<or> zones z \<noteq> None"
  shows "\<exists>sv. res = Some sv"
proof -
  have nz: "prevoids z = None \<Longrightarrow> zones z \<noteq> None" using assms(2) by blast
  have g: "\<not> (prevoids z = None \<and> ((4::int) \<noteq> 4 \<or> zones z = None))"
    using nz by blast
  from assms(1) obtain sel where sel: "select_candidates U z 4 minsig dc = Inr sel"
    and r: "(case sel of
            Return_early msg \<Rightarrow> Inr ([Line ''Selecting void candidates...'', Line msg], None)
          | Candidates cands minvol \<Rightarrow>
              and_then (sort_candidates U z 4 dc cands minvol) (\<lambda>sv.
                Inr ([Line ''Selecting void candidates...'',
                      Line ''Void candidates selected...'',
                      Line ''Effective void radius calculated'',
                      Removed_voids_smaller_than (sv_minrad sv),
                      Line ''Finding void centers...'',
                      Line ''Calculating ellipsoid axes...''],
                     Some sv))) = Inr (out, res)"
    unfolding sortVoids_body_def if_not_P[OF g] and_then_Inr by blast
  from select_method4[OF sel] obtain zn where
    "zones z = Some zn" "sel = Candidates (map (\<lambda>k. [k]) [0..<length (zvols zn)]) None" by blast
  with r show ?thesis by (auto simp: and_then_Inr)
qed

subsection \<open>Evaluating the example runs\<close>

lemma effective_radius_ball: "0 \<le> r \<Longrightarrow> effective_radius (ball r) = Fin r"
proof -
  assume r: "0 \<le> r"
  have "ball r * 3 / (4 * pi) = r ^ 3" by (simp add: ball_def)
  moreover have "root 3 (r ^ 3) = r" using r by (simp add: real_root_power_cancel)
  ultimately show ?thesis using r by (simp add: effective_radius_def)
qed

lemma median_123: "np_median [Fin 1, Fin 2, Fin 3] = Fin 2"
  by (simp add: np_median_def)

lemma effective_radius_0: "effective_radius 0 = Fin 0"
  by (simp add: effective_radius_def)

lemmas eval_sort =
  sortVoids_body_def select_candidates_def and_then_def attr_def sort_candidates_def
  candidate_cells_def unique_coords_def candidate_volumes_def measure_voids_def void_centres_def
  ellipsoid_axes_def flatten_cells_def take_idx_def effective_radius_ball effective_radius_0 mask_def
  zvoid_build_def zvoid_assign_def py_index_def no_util_def Let_def upt_rec numeral_2_eq_2 numeral_3_eq_3

lemma full_run_method1:
  "sortVoids_body no_util full_run 1 2 (1 / 5) = Inr (all_lines (Fin (- 1)), Some full_run_sorted)"
  by (simp add: eval_sort full_run_def full_tess_def full_voids_def full_run_sorted_def all_lines_def
      select_method1_def)

lemma zones_run_method4:
  "sortVoids_body no_util zones_run 4 2 (1 / 5) = Inr (all_lines (Fin 2), Some zones_run_sorted)"
  by (simp add: eval_sort zones_run_def zones_run_sorted_def all_lines_def median_123)

lemma zones_run_radii: "median_radius_candidates zones_run = [Fin 1, Fin 2, Fin 3]"
  by (simp add: median_radius_candidates_def zone_radii_def zones_run_def effective_radius_ball
      upt_rec numeral_3_eq_3)

subsection \<open>Method 3\<close>

text \<open>
  C5, as stated: a call with \<open>method=3\<close> produces an error. It raises nothing: on a run
  with all its stages the call prints two lines and returns as a call that has sorted the
  voids returns, with the object as it was.
\<close>

theorem method3_returns_without_error:
  "sortVoids no_util full_run 3 2 (1 / 5)
     = Inr ([Line ''Selecting void candidates...'', Line ''Method 3 coming soon''], full_run) \<and>
   \<not> (\<exists>e. sortVoids no_util full_run 3 2 (1 / 5) = Inl e)"
  by (simp add: sortVoids_def sortVoids_body_def select_candidates_def and_then_def full_run_def)

text \<open>
  C5, amended: a call with \<open>method=3\<close> raises no error. It prints \<open>Method 3 coming soon\<close>
  (or, without the prevoids stage, \<open>Run all stages of Zobov first\<close>) and returns at once,
  and the object is unchanged: no void attribute is set.
\<close>

theorem method3_prints_and_returns:
  "sortVoids U z 3 minsig dc =
     Inr (if prevoids z = None then [Line ''Run all stages of Zobov first'']
          else [Line ''Selecting void candidates...'', Line ''Method 3 coming soon''], z)"
  by (simp add: sortVoids_def sortVoids_body_def select_candidates_def and_then_def)

subsection \<open>The zone-void map\<close>

lemma py_index_Inr: "py_index a k = Inr v \<Longrightarrow> 0 \<le> k \<Longrightarrow> nat k < length a \<and> v = a ! nat k"
  by (auto simp: py_index_def Let_def split: if_splits)

lemma zvoid_assign_first:
  "j < length zv \<Longrightarrow> zv ! j = (- 1, - 1) \<Longrightarrow> zvoid_assign cands i j zv = Inr (zv[j := (int i, int i)])"
  by (simp add: zvoid_assign_def)

lemma zvoid_assign_ok:
  assumes "zvoid_assign cands i j zv = Inr zv'" and "i < length cands"
    and "list_all (entry_ok cands) zv"
  shows "list_all (entry_ok cands) zv' \<and> length zv' = length zv \<and> (\<forall>k. k \<noteq> j \<longrightarrow> zv' ! k = zv ! k)"
proof -
  from assms(1) have j: "j < length zv" by (auto simp: zvoid_assign_def split: if_splits)
  obtain p s where ps: "zv ! j = (p, s)" by (cases "zv ! j")
  from assms(3) j have ok: "entry_ok cands (p, s)"
    using ps by (auto simp: list_all_length)
  have upd: "entry_ok cands e \<Longrightarrow> list_all (entry_ok cands) (zv[j := e])" for e
    using assms(3) j by (auto simp: list_all_length nth_list_update)
  show ?thesis
  proof (cases "real_of_int p > - 0.5")
    case False
    then have "zv' = zv[j := (int i, int i)]"
      using assms(1) j ps by (simp add: zvoid_assign_def)
    moreover have "entry_ok cands (int i, int i)" using assms(2) by (simp add: entry_ok_def)
    ultimately show ?thesis using upd by simp
  next
    case True
    then have p0: "0 \<le> p" by linarith
    with ok have pr: "nat p < length cands" "0 \<le> s" "nat s < length cands"
      "length (cands ! nat p) \<le> length (cands ! nat s)"
      by (auto simp: entry_ok_def)
    have ip: "py_index cands p = Inr (cands ! nat p)" and isx: "py_index cands s = Inr (cands ! nat s)"
      using p0 pr by (auto simp: py_index_def Let_def)
    have "zv' = (if length (cands ! i) < length (cands ! nat p) then zv[j := (int i, s)]
                 else if length (cands ! i) > length (cands ! nat s) then zv[j := (p, int i)]
                 else zv)"
      using assms(1) j ps True by (simp add: zvoid_assign_def and_then_def ip isx split: if_splits)
    moreover have "length (cands ! i) < length (cands ! nat p) \<Longrightarrow> entry_ok cands (int i, s)"
      using pr assms(2) by (simp add: entry_ok_def)
    moreover have "length (cands ! i) > length (cands ! nat s) \<Longrightarrow> entry_ok cands (p, int i)"
      using pr p0 assms(2) by (simp add: entry_ok_def)
    ultimately show ?thesis using upd assms(3) by (auto split: if_splits)
  qed
qed

lemma zvoid_build_inv:
  assumes "zvoid_build cands n = Inr zv"
  shows "zv_inv cands n (\<Union>v \<in> set cands. set v) zv"
proof -
  let ?T = "\<Union>v \<in> set cands. set v"
  let ?I = "zv_inv cands n ?T"
  have init: "?I (replicate n (- 1, - 1))"
    by (simp add: zv_inv_def list_all_length entry_ok_def)
  have inner: "?I t'" if i: "i \<in> set [0..<length cands]" and t: "?I t"
      and r: "run_loop (zvoid_assign cands i) (cands ! i) t = Inr t'" for i t t'
  proof (rule run_loop_invariant[where I = ?I, OF r t])
    fix j u u'
    assume j: "j \<in> set (cands ! i)" and u: "?I u" and s: "zvoid_assign cands i j u = Inr u'"
    have il: "i < length cands" using i by simp
    then have jT: "j \<in> ?T" using j by (auto intro: nth_mem)
    from zvoid_assign_ok[OF s il] u
    have "list_all (entry_ok cands) u'" "length u' = length u" "\<forall>k. k \<noteq> j \<longrightarrow> u' ! k = u ! k"
      by (auto simp: zv_inv_def)
    then show "?I u'" using u jT by (auto simp: zv_inv_def)
  qed
  show ?thesis
    using assms unfolding zvoid_build_def
    by (rule run_loop_invariant[where I = ?I, OF _ init]) (rule inner)
qed

lemma zvoid_assign_total:
  assumes "i < length cands" "j < length zv" "list_all (entry_ok cands) zv"
  shows "\<exists>zv'. zvoid_assign cands i j zv = Inr zv'"
proof -
  obtain p s where ps: "zv ! j = (p, s)" by (cases "zv ! j")
  from assms(2,3) have ok: "entry_ok cands (p, s)"
    using ps by (auto simp: list_all_length)
  show ?thesis
  proof (cases "real_of_int p > - 0.5")
    case False
    then show ?thesis using assms(2) ps by (simp add: zvoid_assign_def)
  next
    case True
    then have p0: "0 \<le> p" by linarith
    with ok have pr: "nat p < length cands" "0 \<le> s" "nat s < length cands"
      by (auto simp: entry_ok_def)
    have ip: "py_index cands p = Inr (cands ! nat p)" and isx: "py_index cands s = Inr (cands ! nat s)"
      using p0 pr by (auto simp: py_index_def Let_def)
    show ?thesis using assms(2) ps True by (simp add: zvoid_assign_def and_then_def ip isx)
  qed
qed

lemma zvoid_build_total:
  assumes "\<forall>v \<in> set cands. \<forall>j \<in> set v. j < n"
  shows "\<exists>zv. zvoid_build cands n = Inr zv"
proof -
  let ?I = "\<lambda>zv. list_all (entry_ok cands) zv \<and> length zv = n"
  have init: "?I (replicate n (- 1, - 1))"
    by (simp add: list_all_length entry_ok_def)
  have "\<exists>s'. run_loop (\<lambda>i. run_loop (zvoid_assign cands i) (cands ! i)) [0..<length cands]
               (replicate n (- 1, - 1)) = Inr s' \<and> ?I s'"
  proof (rule run_loop_total[where I = ?I, OF init])
    fix i t assume i: "i \<in> set [0..<length cands]" and t: "?I t"
    then have il: "i < length cands" by simp
    show "\<exists>t'. run_loop (zvoid_assign cands i) (cands ! i) t = Inr t' \<and> ?I t'"
    proof (rule run_loop_total[where I = ?I, OF t])
      fix j u assume j: "j \<in> set (cands ! i)" and u: "?I u"
      have jn: "j < length u" using assms il j u by (auto dest: nth_mem)
      from zvoid_assign_total[OF il jn] u obtain u' where u': "zvoid_assign cands i j u = Inr u'"
        by blast
      from zvoid_assign_ok[OF u' il] u have "?I u'" by simp
      with u' show "\<exists>t'. zvoid_assign cands i j u = Inr t' \<and> ?I t'" by blast
    qed
  qed
  then show ?thesis by (auto simp: zvoid_build_def)
qed

subsection \<open>The stages that a call needs\<close>

lemma method4_total:
  assumes "zones_stage_complete z"
  shows "\<exists>sv. sortVoids_body U z 4 minsig dc = Inr (all_lines (sv_minrad sv), Some sv)"
proof -
  from assms obtain cat tess zn where cat: "catalog z = Some cat" and tess: "tesselation z = Some tess"
    and zn: "zones z = Some zn"
    by (auto simp: zones_stage_complete_def split: option.splits)
  define n where "n = length (zvols zn)"
  define cutco where
    "cutco = map (\<lambda>g. coord cat ! g) (filter (\<lambda>g. nnls cat ! g = int g) [0..<length (coord cat)])"
  define cands where "cands = map (\<lambda>k. [k]) [0..<n]"
  define vcuts where "vcuts = map (\<lambda>k. zcell zn ! k) [0..<n]"
  define vvols where "vvols = map sum_list (map (\<lambda>vcut. map (\<lambda>c. volumes tess ! c) vcut) vcuts)"
  define rcut where
    "rcut = map (np_less (np_median (map effective_radius vvols))) (map effective_radius vvols)"
  from assms have len: "length (nnls cat) = length (coord cat)" and zc: "n \<le> length (zcell zn)"
    and la: "list_all (list_all (\<lambda>c. c < length (volumes tess) \<and> c < length cutco))
               (take n (zcell zn))"
    by (simp_all add: zones_stage_complete_def cat tess zn n_def cutco_def)
  have cells: "c < length (volumes tess) \<and> c < length cutco"
    if k: "k < n" and c: "c \<in> set (zcell zn ! k)" for k c
  proof -
    have "take n (zcell zn) ! k \<in> set (take n (zcell zn))"
      using k zc by (intro nth_mem) simp
    then have "zcell zn ! k \<in> set (take n (zcell zn))" using k by simp
    with la c show ?thesis by (auto simp: list_all_iff)
  qed
  have sel: "select_candidates U z 4 minsig dc = Inr (Candidates cands None)"
    by (simp add: select_candidates_def and_then_def attr_def zn cands_def n_def)
  have "candidate_cells zn cands = Inr (map (\<lambda>v. zcell zn ! hd v) cands)"
    unfolding candidate_cells_def using zc
    by (intro map_err_map) (auto simp: flatten_cells_def take_idx_def and_then_def cands_def)
  then have cc: "candidate_cells zn cands = Inr vcuts"
    by (simp add: comp_def cands_def vcuts_def)
  have uc: "unique_coords cat = Inr cutco" by (simp add: unique_coords_def len cutco_def)
  have vin: "c < length (volumes tess) \<and> c < length cutco"
    if "vcut \<in> set vcuts" "c \<in> set vcut" for vcut c
    using that cells by (auto simp: vcuts_def)
  have tv: "take_idx (volumes tess) vcut = Inr (map (\<lambda>c. volumes tess ! c) vcut)"
    if "vcut \<in> set vcuts" for vcut
    using vin[OF that] by (simp add: take_idx_def list_all_iff)
  have tc: "take_idx cutco vcut = Inr (map (\<lambda>c. cutco ! c) vcut)"
    if "vcut \<in> set vcuts" for vcut
    using vin[OF that] by (simp add: take_idx_def list_all_iff)
  have "map_err (take_idx (volumes tess)) vcuts = Inr (map (\<lambda>vcut. map (\<lambda>c. volumes tess ! c) vcut) vcuts)"
    by (rule map_err_map) (rule tv)
  then have cv: "candidate_volumes tess vcuts = Inr vvols"
    by (simp add: candidate_volumes_def and_then_def vvols_def)
  have s1: "set (mask vcuts rcut) \<subseteq> set vcuts" by (rule set_mask)
  have "\<exists>vcens. void_centres U tess cutco (mask vcuts rcut) = Inr vcens"
    unfolding void_centres_def
    by (rule exI, rule map_err_map[where g = "\<lambda>vcut. wCen U (map (\<lambda>c. volumes tess ! c) vcut)
                                                        (map (\<lambda>c. cutco ! c) vcut)"])
       (use s1 tv tc in \<open>auto simp: and_then_def\<close>)
  then obtain vcens where vc: "void_centres U tess cutco (mask vcuts rcut) = Inr vcens" by blast
  have "\<exists>ax. ellipsoid_axes U cutco (mask (map effective_radius vvols) rcut) (mask vcuts rcut) = Inr ax"
    unfolding ellipsoid_axes_def
    by (rule exI, rule map_err_map[where g = "\<lambda>rv. getSMA U (fst rv) (map (\<lambda>c. cutco ! c) (snd rv))"])
       (use s1 tc in \<open>auto simp: and_then_def dest!: set_zip_rightD\<close>)
  then obtain ax where
    ea: "ellipsoid_axes U cutco (mask (map effective_radius vvols) rcut) (mask vcuts rcut) = Inr ax"
    by blast
  have "\<forall>v \<in> set (mask cands rcut). \<forall>j \<in> set v. j < n"
    using set_mask[of cands rcut] by (auto simp: cands_def)
  from zvoid_build_total[OF this] obtain zv where zv: "zvoid_build (mask cands rcut) n = Inr zv"
    by blast
  have "sort_candidates U z 4 dc cands None =
          measure_voids U tess cutco 4 dc None n (np_median (map effective_radius vvols))
            (mask cands rcut) (mask vcuts rcut) (mask vvols rcut) (mask (map effective_radius vvols) rcut)"
    by (simp add: sort_candidates_def and_then_def attr_def zn cat tess cc uc cv Let_def rcut_def n_def
        del: map_map)
  also have "\<dots> = Inr \<lparr>sv_voids = mask cands rcut, sv_vrads = mask (map effective_radius vvols) rcut,
                         sv_vcens = vcens, sv_vaxes = ax, sv_zvoid = zv,
                         sv_minrad = np_median (map effective_radius vvols)\<rparr>"
    by (simp add: measure_voids_def and_then_def vc ea zv)
  finally obtain sv where "sort_candidates U z 4 dc cands None = Inr sv" by blast
  then have "sortVoids_body U z 4 minsig dc = Inr (all_lines (sv_minrad sv), Some sv)"
    by (simp add: sortVoids_body_def sel zn and_then_def all_lines_def)
  then show ?thesis by blast
qed

text \<open>
  C10. Without the prevoids stage, a call with a method other than 4 (or, with method 4,
  without the zones stage) prints one line and returns with the object unchanged. Method 4
  needs the zones stage only: on a run that stopped after the zones the call runs to its
  end and stores its results.
\<close>

theorem method4_needs_zones_only:
  assumes "prevoids z = None"
  shows "(method \<noteq> 4 \<or> zones z = None \<longrightarrow>
            sortVoids U z method minsig dc = Inr ([Line ''Run all stages of Zobov first''], z)) \<and>
         (zones_stage_complete z \<longrightarrow>
            (\<exists>sv. sortVoids U z 4 minsig dc = Inr (all_lines (sv_minrad sv), store z sv)))"
proof (intro conjI impI)
  assume "method \<noteq> 4 \<or> zones z = None"
  then show "sortVoids U z method minsig dc = Inr ([Line ''Run all stages of Zobov first''], z)"
    using assms by (simp add: sortVoids_def sortVoids_body_def and_then_def)
next
  assume "zones_stage_complete z"
  from method4_total[OF this, of U minsig dc] obtain sv where
    "sortVoids_body U z 4 minsig dc = Inr (all_lines (sv_minrad sv), Some sv)" by blast
  then have "sortVoids U z 4 minsig dc = Inr (all_lines (sv_minrad sv), store z sv)"
    by (simp add: sortVoids_def and_then_def)
  then show "\<exists>sv. sortVoids U z 4 minsig dc = Inr (all_lines (sv_minrad sv), store z sv)" by blast
qed

theorem method4_needs_zones_only_witness:
  "prevoids zones_run = None \<and> (0 :: int) \<noteq> 4 \<and> zones_stage_complete zones_run \<and>
   sortVoids no_util zones_run 0 2 (1 / 5) = Inr ([Line ''Run all stages of Zobov first''], zones_run) \<and>
   (\<exists>sv. sortVoids no_util zones_run 4 2 (1 / 5) = Inr (all_lines (sv_minrad sv), store zones_run sv))"
proof -
  have h1: "prevoids zones_run = None" by (simp add: zones_run_def)
  have h2: "(0 :: int) \<noteq> 4" by simp
  then have h2': "(0 :: int) \<noteq> 4 \<or> zones zones_run = None" by (rule disjI1)
  have h3: "zones_stage_complete zones_run"
    by (simp add: zones_stage_complete_def zones_run_def upt_rec numeral_3_eq_3)
  note c = method4_needs_zones_only[OF h1, of 0 no_util 2 "1 / 5"]
  from c[THEN conjunct1, rule_format, OF h2']
  have c1: "sortVoids no_util zones_run 0 2 (1 / 5)
              = Inr ([Line ''Run all stages of Zobov first''], zones_run)" .
  from c[THEN conjunct2, rule_format, OF h3]
  have c2: "\<exists>sv. sortVoids no_util zones_run 4 2 (1 / 5)
              = Inr (all_lines (sv_minrad sv), store zones_run sv)" .
  show ?thesis using h1 h2 h3 c1 c2 by (intro conjI)
qed

subsection \<open>Method 4: the median radius\<close>

lemma np_less_irrefl: "\<not> np_less a a"
  by (cases a) simp_all

lemma flatten_single: "flatten_cells zc [k] = Inr b \<Longrightarrow> b = zc ! k"
  by (auto simp: flatten_cells_def take_idx_def and_then_def split: if_splits)

lemma take_idx_Inr: "take_idx a idx = Inr b \<Longrightarrow> b = map (\<lambda>i. a ! i) idx"
  by (auto simp: take_idx_def split: if_splits)

lemma method4_radii:
  assumes "candidate_cells zn (map (\<lambda>k. [k]) [0..<length (zvols zn)]) = Inr vcuts"
    and "candidate_volumes tess vcuts = Inr vvols"
  shows "map effective_radius vvols = zone_radii zn tess"
proof -
  have 1: "vcuts = map (\<lambda>v. zcell zn ! hd v) (map (\<lambda>k. [k]) [0..<length (zvols zn)])"
    using assms(1) unfolding candidate_cells_def
    by (rule map_err_eq_map) (auto dest: flatten_single)
  from assms(2) obtain cellvols where cv: "map_err (take_idx (volumes tess)) vcuts = Inr cellvols"
    and vv: "vvols = map sum_list cellvols"
    unfolding candidate_volumes_def and_then_Inr by auto
  have 2: "cellvols = map (\<lambda>vcut. map (\<lambda>c. volumes tess ! c) vcut) vcuts"
    using cv by (rule map_err_eq_map) (auto dest: take_idx_Inr)
  show ?thesis unfolding vv 2 1 zone_radii_def by (simp add: comp_def)
qed

text \<open>
  C3, as stated: with \<open>method=4\<close>, \<open>minrad\<close> is the median of the radii of all candidates,
  every void that is kept has a radius of at least the median, and a candidate whose radius
  is the median is kept. The cut is \<open>vrads > self.minrad\<close>: of three zones of radii 1, 2
  and 3 the median is 2, and the zone of radius 2 is cut.
\<close>

theorem median_candidate_is_cut:
  "median_radius_candidates zones_run = [Fin 1, Fin 2, Fin 3] \<and>
   np_median [Fin 1, Fin 2, Fin 3] = Fin 2 \<and>
   sortVoids no_util zones_run 4 2 (1 / 5) = Inr (all_lines (Fin 2), store zones_run zones_run_sorted) \<and>
   minrad (store zones_run zones_run_sorted) = Some (Fin 2) \<and>
   vrads (store zones_run zones_run_sorted) = Some [Fin 3]"
  by (simp add: zones_run_radii median_123 sortVoids_def zones_run_method4 and_then_def store_def
      zones_run_sorted_def)

text \<open>
  C3, amended: with \<open>method=4\<close>, on a run that has its zones (without them the call
  returns early or raises), \<open>minrad\<close> is set to the median of the effective radii of all
  candidates (one for each zone), and the radii that are kept are the radii of the
  candidates that are strictly greater than that median: a candidate whose radius is the
  median is cut.
\<close>

theorem method4_keeps_above_median:
  assumes run: "sortVoids U z 4 minsig dc = Inr (out, z')"
    and zones_set: "zones z = Some zs"
  shows "minrad z' = Some (np_median (median_radius_candidates z)) \<and>
         vrads z' = Some (filter (np_less (np_median (median_radius_candidates z)))
                                 (median_radius_candidates z)) \<and>
         (\<forall>rs. vrads z' = Some rs \<longrightarrow> np_median (median_radius_candidates z) \<notin> set rs)"
proof -
  have stage: "prevoids z \<noteq> None \<or> zones z \<noteq> None" using zones_set by simp
  from sortVoids_Inr[OF run] obtain res where
    body0: "sortVoids_body U z 4 minsig dc = Inr (out, res)"
    and z0: "z' = (case res of None \<Rightarrow> z | Some sv \<Rightarrow> store z sv)" by blast
  from body_method4_Some[OF body0 stage] obtain sv where res: "res = Some sv" by blast
  have body: "sortVoids_body U z 4 minsig dc = Inr (out, Some sv)" using body0 res by simp
  have z': "z' = store z sv" using z0 res by simp
  from sortVoids_body_Some[OF body] obtain cands minvol where
    sel: "select_candidates U z 4 minsig dc = Inr (Candidates cands minvol)"
    and sc: "sort_candidates U z 4 dc cands minvol = Inr sv" by blast
  from sort_candidates_Inr[OF sc] obtain zn tess vcuts vvols where
    zn: "zones z = Some zn" and tess: "tesselation z = Some tess"
    and vcuts: "candidate_cells zn cands = Inr vcuts"
    and vvols: "candidate_volumes tess vcuts = Inr vvols"
    and mr: "sv_minrad sv = np_median (map effective_radius vvols)"
    and vr: "sv_vrads sv = filter (np_less (sv_minrad sv)) (map effective_radius vvols)"
    by auto
  from select_method4[OF sel] zn have cands: "cands = map (\<lambda>k. [k]) [0..<length (zvols zn)]"
    by simp
  have rad: "map effective_radius vvols = median_radius_candidates z"
    using method4_radii[OF vcuts[unfolded cands] vvols]
    by (simp add: median_radius_candidates_def zn tess)
  have "np_median (median_radius_candidates z) \<notin> set (sv_vrads sv)"
    unfolding vr mr rad by (simp add: np_less_irrefl)
  then show ?thesis
    unfolding z' by (simp add: store_def mr vr rad)
qed

theorem method4_keeps_above_median_witness:
  "sortVoids no_util zones_run 4 2 (1 / 5) = Inr (all_lines (Fin 2), store zones_run zones_run_sorted) \<and>
   zones zones_run = Some \<lparr>zcell = [[0], [1], [2]], zvols = [ball 1, ball 2, ball 3]\<rparr> \<and>
   minrad (store zones_run zones_run_sorted) = Some (np_median (median_radius_candidates zones_run)) \<and>
   vrads (store zones_run zones_run_sorted)
     = Some (filter (np_less (np_median (median_radius_candidates zones_run)))
                    (median_radius_candidates zones_run)) \<and>
   np_median (median_radius_candidates zones_run) \<notin> set [Fin 3]"
proof -
  have h1: "sortVoids no_util zones_run 4 2 (1 / 5)
              = Inr (all_lines (Fin 2), store zones_run zones_run_sorted)"
    by (simp add: sortVoids_def zones_run_method4 and_then_def)
  have h2: "zones zones_run = Some \<lparr>zcell = [[0], [1], [2]], zvols = [ball 1, ball 2, ball 3]\<rparr>"
    by (simp add: zones_run_def)
  note c = method4_keeps_above_median[OF h1 h2]
  have v: "vrads (store zones_run zones_run_sorted) = Some [Fin 3]"
    by (simp add: store_def zones_run_sorted_def)
  from c[THEN conjunct2, THEN conjunct2, rule_format, OF v]
  have c3: "np_median (median_radius_candidates zones_run) \<notin> set [Fin 3]" .
  from c have c1: "minrad (store zones_run zones_run_sorted)
                     = Some (np_median (median_radius_candidates zones_run))"
    by (rule conjunct1)
  from c[THEN conjunct2, THEN conjunct1]
  have c2: "vrads (store zones_run zones_run_sorted)
     = Some (filter (np_less (np_median (median_radius_candidates zones_run)))
                    (median_radius_candidates zones_run))" .
  show ?thesis using h1 h2 c1 c2 c3 by (intro conjI)
qed

subsection \<open>Method 0: the levels of an entry\<close>

lemma method0_levels_from:
  assumes "i < length (voids pv)" "n \<le> length (voids pv ! i)" "n \<le> length (ovols pv ! i)" "1 \<le> k"
  shows "method0_levels minvol pv i [k..<n] vbuff =
           Inr (vbuff @ concat (take (length (takeWhile (not_below minvol)
                                                (take (n - k) (drop k (ovols pv ! i)))))
                                     (drop k (voids pv ! i))))"
  using assms(4)
proof (induction "n - k" arbitrary: k vbuff)
  case 0
  then show ?case by simp
next
  case (Suc m)
  let ?vl = "ovols pv ! i" and ?vs = "voids pv ! i"
  have kn: "k < n" using Suc.hyps(2) by simp
  have up: "[k..<n] = k # [Suc k..<n]" using kn by (simp add: upt_conv_Cons)
  have dl: "drop k ?vl = ?vl ! k # drop (Suc k) ?vl"
    using kn assms(3) by (simp add: Cons_nth_drop_Suc)
  have ds: "drop k ?vs = ?vs ! k # drop (Suc k) ?vs"
    using kn assms(2) by (simp add: Cons_nth_drop_Suc)
  have tk: "take (n - k) (drop k ?vl) = ?vl ! k # take (n - Suc k) (drop (Suc k) ?vl)"
    using kn by (simp add: dl take_Cons')
  show ?case
  proof (cases "np_less (Fin (?vl ! k)) minvol")
    case True
    then show ?thesis using Suc.prems by (simp add: up tk not_below_def)
  next
    case False
    have m: "m = n - Suc k" using Suc.hyps(2) by simp
    have "method0_levels minvol pv i [k..<n] vbuff
            = method0_levels minvol pv i [Suc k..<n] (vbuff @ ?vs ! k)"
      using False kn assms(1,2) by (simp add: up)
    also have "\<dots> = Inr ((vbuff @ ?vs ! k) @ concat (take (length (takeWhile (not_below minvol)
                                                (take (n - Suc k) (drop (Suc k) ?vl))))
                                     (drop (Suc k) ?vs)))"
      by (rule Suc.hyps(1)[OF m]) simp
    finally show ?thesis using False by (simp add: tk ds not_below_def)
  qed
qed

lemma method0_entry:
  assumes "i < length (voids pv)" "length (ovols pv ! i) = Suc (length (voids pv ! i))"
  shows "method0_levels minvol pv i [0..<length (ovols pv ! i) - 1] []
           = Inr (vide_cells minvol (ovols pv ! i) (voids pv ! i))"
proof (cases "voids pv ! i")
  case Nil
  then show ?thesis using assms by (simp add: vide_cells_def vide_levels_def)
next
  case (Cons g gs)
  let ?vl = "ovols pv ! i" and ?vs = "voids pv ! i"
  let ?n = "length ?vs"
  have n: "length ?vl - 1 = ?n" using assms(2) by simp
  have n0: "0 < ?n" using Cons by simp
  have up: "[0..<?n] = 0 # [1..<?n]" using n0 by (simp add: upt_conv_Cons)
  have "length (butlast ?vl) = ?n" using n by simp
  then obtain v rest where bl: "butlast ?vl = v # rest"
    using n0 by (cases "butlast ?vl") auto
  have rest: "rest = take (?n - 1) (drop 1 ?vl)"
  proof -
    have "take ?n ?vl = v # rest" using n bl by (simp add: butlast_conv_take)
    then have "tl (take ?n ?vl) = rest" by simp
    then show ?thesis by (simp add: tl_take drop_Suc)
  qed
  have "method0_levels minvol pv i [0..<?n] [] = method0_levels minvol pv i [1..<?n] ([] @ ?vs ! 0)"
    using assms(1) n0 by (simp add: up)
  also have "\<dots> = Inr (([] @ ?vs ! 0) @ concat (take (length (takeWhile (not_below minvol)
                                                (take (?n - 1) (drop 1 ?vl))))
                                     (drop 1 ?vs)))"
    using assms by (intro method0_levels_from) simp_all
  also have "\<dots> = Inr (vide_cells minvol ?vl ?vs)"
    using Cons by (simp add: vide_cells_def vide_levels_def bl rest)
  finally show ?thesis by (simp only: n)
qed

lemma select_method0_shape:
  assumes "hierarchy_shape pv"
  shows "select_method0 minvol pv = Inr (map2 (vide_cells minvol) (ovols pv) (voids pv))"
proof -
  have len: "length (ovols pv) = length (voids pv)"
    and each: "\<And>i. i < length (ovols pv) \<Longrightarrow> length (ovols pv ! i) = Suc (length (voids pv ! i))"
    using assms by (auto simp: hierarchy_shape_def list_all2_conv_all_nth)
  have "select_method0 minvol pv
          = Inr (map (\<lambda>i. vide_cells minvol (ovols pv ! i) (voids pv ! i)) [0..<length (ovols pv)])"
    unfolding select_method0_def
  proof (rule map_err_map)
    fix i assume "i \<in> set [0..<length (ovols pv)]"
    then have i: "i < length (voids pv)" using len by simp
    then show "method0_levels minvol pv i [0..<length (ovols pv ! i) - 1] []
                 = Inr (vide_cells minvol (ovols pv ! i) (voids pv ! i))"
      using each[of i] len by (intro method0_entry) simp_all
  qed
  also have "map (\<lambda>i. vide_cells minvol (ovols pv ! i) (voids pv ! i)) [0..<length (ovols pv)]
               = map2 (vide_cells minvol) (ovols pv) (voids pv)"
    using len by (auto intro!: nth_equalityI)
  finally show ?thesis .
qed

lemma np_less_mono: "np_less (Fin a) m \<Longrightarrow> b \<le> a \<Longrightarrow> np_less (Fin b) m"
  by (cases m) auto

lemma descending_levels_kept:
  assumes desc: "sorted_wrt (\<lambda>a b. a \<ge> b) lv" and j: "j < length lv"
    and nb: "not_below minvol (lv ! j)"
  shows "j < vide_levels minvol lv"
proof (cases lv)
  case Nil
  with j show ?thesis by simp
next
  case (Cons v rest)
  let ?c = "length (takeWhile (not_below minvol) rest)"
  show ?thesis
  proof (rule ccontr)
    assume "\<not> j < vide_levels minvol lv"
    then have c: "Suc ?c \<le> j" by (simp add: vide_levels_def Cons)
    then have cl: "?c < length rest" using j Cons by simp
    then have "\<not> not_below minvol (rest ! ?c)" by (rule nth_length_takeWhile)
    then have below: "np_less (Fin (lv ! Suc ?c)) minvol" by (simp add: not_below_def Cons)
    have "lv ! j \<le> lv ! Suc ?c"
    proof (cases "Suc ?c = j")
      case True
      then show ?thesis by simp
    next
      case False
      with c have "Suc ?c < j" by simp
      then show ?thesis using sorted_wrt_nth_less[OF desc _ j] by simp
    qed
    with below have "np_less (Fin (lv ! j)) minvol" by (rule np_less_mono)
    with nb show False by (simp add: not_below_def)
  qed
qed

lemma not_below_fin: "not_below (Fin b) v \<longleftrightarrow> b \<le> v"
  by (auto simp: not_below_def)

lemma levels_minvol: "minvol_of (volumes levels_tess) 2 = Fin (45 / 2)"
  by (simp add: minvol_of_def levels_tess_def)

text \<open>
  C4, as stated: the cell list selected for an entry is the concatenation of its level
  groups up to the first level below \<open>mean_cell_volume / dc\<close>, and in particular every
  level above the bound is accumulated. The last clause fails where the level volumes do
  not descend: in \<open>uneven_voids\<close> the loop breaks at the third level, of volume 10, and the
  fourth level, of volume 40 and above the bound \<open>45 / 2\<close>, is not gathered.
\<close>

theorem level_above_bound_after_drop_is_skipped:
  "tesselation uneven_run = Some levels_tess \<and> prevoids uneven_run = Some uneven_voids \<and>
   hierarchy_shape uneven_voids \<and>
   select_candidates no_util uneven_run 0 2 2 = Inr (Candidates [[0, 1]] (Some (Fin (45 / 2)))) \<and>
   not_below (Fin (45 / 2)) (ovols uneven_voids ! 0 ! 3) \<and>
   voids uneven_voids ! 0 ! 3 = [3] \<and> 3 \<notin> set ([[0, 1]] ! 0 :: nat list)"
  by (simp add: uneven_run_def descending_run_def uneven_voids_def hierarchy_shape_def
      select_candidates_def and_then_def attr_def select_method0_def levels_minvol
      not_below_def upt_rec)

text \<open>
  C4, amended. With \<open>method=0\<close>, the cell list selected for an entry of the hierarchy is the
  concatenation, in level order, of its cell groups: the first level whatever its volume,
  then the levels that follow for as long as their volume has not dropped below
  \<open>mean_cell_volume / dc\<close>; at the first level below the bound the accumulation stops and
  what was gathered is kept. That is \<open>vide_cells\<close>. In particular, where the level volumes
  of an entry descend, every level of the entry that is not below the bound is
  accumulated. The hierarchy has the shape that the loop bound \<open>len(vl)-1\<close> reads it with:
  one volume for each level, and the volume of the link last. For a bound that is a
  number, \<open>not_below\<close> is ``at or above'' (\<open>not_below_fin\<close>).
\<close>

theorem method0_accumulates_levels:
  assumes "tesselation z = Some tess" "prevoids z = Some pv" "hierarchy_shape pv"
  shows "select_candidates U z 0 minsig dc =
           Inr (Candidates (map2 (vide_cells (minvol_of (volumes tess) dc)) (ovols pv) (voids pv))
                           (Some (minvol_of (volumes tess) dc))) \<and>
         (\<forall>i j. i < length (voids pv) \<and> j < length (voids pv ! i) \<and>
                levels_descend (ovols pv ! i) \<and>
                not_below (minvol_of (volumes tess) dc) (ovols pv ! i ! j) \<longrightarrow>
                j < vide_levels (minvol_of (volumes tess) dc) (butlast (ovols pv ! i)) \<and>
                set (voids pv ! i ! j) \<subseteq>
                  set (map2 (vide_cells (minvol_of (volumes tess) dc)) (ovols pv) (voids pv) ! i))"
proof (intro conjI allI impI)
  show "select_candidates U z 0 minsig dc =
           Inr (Candidates (map2 (vide_cells (minvol_of (volumes tess) dc)) (ovols pv) (voids pv))
                           (Some (minvol_of (volumes tess) dc)))"
    using assms by (simp add: select_candidates_def and_then_def attr_def select_method0_shape)
next
  fix i j
  let ?mv = "minvol_of (volumes tess) dc"
  assume h: "i < length (voids pv) \<and> j < length (voids pv ! i) \<and>
             levels_descend (ovols pv ! i) \<and> not_below ?mv (ovols pv ! i ! j)"
  have len: "length (ovols pv) = length (voids pv)"
    and each: "length (ovols pv ! i) = Suc (length (voids pv ! i))"
    using assms(3) h by (auto simp: hierarchy_shape_def list_all2_conv_all_nth)
  have jl: "j < length (butlast (ovols pv ! i))" using h each by simp
  then have nth: "butlast (ovols pv ! i) ! j = ovols pv ! i ! j" by (simp add: nth_butlast)
  show lev: "j < vide_levels ?mv (butlast (ovols pv ! i))"
    using descending_levels_kept[of "butlast (ovols pv ! i)" j ?mv] h jl nth
    by (simp add: levels_descend_def)
  have sel: "map2 (vide_cells ?mv) (ovols pv) (voids pv) ! i
               = vide_cells ?mv (ovols pv ! i) (voids pv ! i)"
    using h len by simp
  have "voids pv ! i ! j \<in> set (take (vide_levels ?mv (butlast (ovols pv ! i))) (voids pv ! i))"
    using lev h by (metis in_set_conv_nth length_take min_less_iff_conj nth_take)
  then have "set (voids pv ! i ! j) \<subseteq> set (vide_cells ?mv (ovols pv ! i) (voids pv ! i))"
    unfolding vide_cells_def by auto
  then show "set (voids pv ! i ! j) \<subseteq> set (map2 (vide_cells ?mv) (ovols pv) (voids pv) ! i)"
    by (simp only: sel)
qed

theorem method0_accumulates_levels_witness:
  "tesselation descending_run = Some levels_tess \<and>
   prevoids descending_run = Some descending_voids \<and>
   hierarchy_shape descending_voids \<and>
   select_candidates no_util descending_run 0 2 2
     = Inr (Candidates [[0, 1, 2]] (Some (Fin (45 / 2)))) \<and>
   (0::nat) < length (voids descending_voids) \<and> (2::nat) < length (voids descending_voids ! 0) \<and>
   levels_descend (ovols descending_voids ! 0) \<and>
   not_below (Fin (45 / 2)) (ovols descending_voids ! 0 ! 2) \<and>
   2 < vide_levels (Fin (45 / 2)) (butlast (ovols descending_voids ! 0)) \<and>
   set (voids descending_voids ! 0 ! 2) \<subseteq> set ([[0, 1, 2]] ! 0)"
proof -
  have h1: "tesselation descending_run = Some levels_tess" by (simp add: descending_run_def)
  have h2: "prevoids descending_run = Some descending_voids" by (simp add: descending_run_def)
  have h3: "hierarchy_shape descending_voids"
    by (simp add: hierarchy_shape_def descending_voids_def)
  have e: "map2 (vide_cells (Fin (45 / 2))) (ovols descending_voids) (voids descending_voids)
             = [[0, 1, 2]]"
    by (simp add: descending_voids_def vide_cells_def vide_levels_def not_below_def)
  note c = method0_accumulates_levels[OF h1 h2 h3, of no_util 2 2, unfolded levels_minvol e]
  have k1: "(0::nat) < length (voids descending_voids)" by (simp add: descending_voids_def)
  have k2: "(2::nat) < length (voids descending_voids ! 0)" by (simp add: descending_voids_def)
  have k3: "levels_descend (ovols descending_voids ! 0)"
    by (simp add: levels_descend_def descending_voids_def)
  have k4: "not_below (Fin (45 / 2)) (ovols descending_voids ! 0 ! 2)"
    by (simp add: not_below_def descending_voids_def)
  from c[THEN conjunct2, rule_format, of 0 2] k1 k2 k3 k4
  have d: "2 < vide_levels (Fin (45 / 2)) (butlast (ovols descending_voids ! 0)) \<and>
           set (voids descending_voids ! 0 ! 2) \<subseteq> set ([[0, 1, 2]] ! 0)"
    by blast
  show ?thesis
    using h1 h2 h3 c[THEN conjunct1] k1 k2 k3 k4 d[THEN conjunct1] d[THEN conjunct2]
    by (intro conjI)
qed

subsection \<open>The order of primary and secondary\<close>

text \<open>
  C6. After a call that ran to its end, with \<open>sv_voids\<close> the candidates it kept and
  \<open>sv_zvoid\<close> the zone-void map it stores: for a zone that is assigned, the candidate at the
  primary index has at most as many zones as the candidate at the secondary index; a zone
  of no candidate keeps \<open>(-1, -1)\<close>; and the first assignment of a zone sets both indices
  to the same candidate.
\<close>

theorem zone_void_map_primary_not_larger:
  assumes run: "sortVoids_body U z method minsig dc = Inr (out, Some sv)"
  shows "zvoid (store z sv) = Some (sv_zvoid sv) \<and>
         (\<forall>j p s. j < length (sv_zvoid sv) \<and> sv_zvoid sv ! j = (p, s) \<and> p \<noteq> - 1 \<longrightarrow>
            0 \<le> p \<and> nat p < length (sv_voids sv) \<and> 0 \<le> s \<and> nat s < length (sv_voids sv) \<and>
            length (sv_voids sv ! nat p) \<le> length (sv_voids sv ! nat s)) \<and>
         (\<forall>j. j < length (sv_zvoid sv) \<and> j \<notin> \<Union> (set ` set (sv_voids sv)) \<longrightarrow>
            sv_zvoid sv ! j = (- 1, - 1)) \<and>
         (\<forall>i j zv. j < length zv \<and> zv ! j = (- 1, - 1) \<longrightarrow>
            zvoid_assign (sv_voids sv) i j zv = Inr (zv[j := (int i, int i)]))"
proof -
  from sortVoids_body_Some[OF run] obtain cands minvol where
    sc: "sort_candidates U z method dc cands minvol = Inr sv" by blast
  from sort_candidates_Inr[OF sc] obtain zn :: Zones where
    zb: "zvoid_build (sv_voids sv) (length (zvols zn)) = Inr (sv_zvoid sv)" by blast
  from zvoid_build_inv[OF zb]
  have ok: "list_all (entry_ok (sv_voids sv)) (sv_zvoid sv)"
    and un: "\<forall>k. k \<notin> \<Union> (set ` set (sv_voids sv)) \<longrightarrow> k < length (sv_zvoid sv) \<longrightarrow> sv_zvoid sv ! k = (- 1, - 1)"
    by (auto simp: zv_inv_def)
  have 1: "zvoid (store z sv) = Some (sv_zvoid sv)" by (simp add: store_def)
  have 2: "\<forall>j p s. j < length (sv_zvoid sv) \<and> sv_zvoid sv ! j = (p, s) \<and> p \<noteq> - 1 \<longrightarrow>
            0 \<le> p \<and> nat p < length (sv_voids sv) \<and> 0 \<le> s \<and> nat s < length (sv_voids sv) \<and>
            length (sv_voids sv ! nat p) \<le> length (sv_voids sv ! nat s)"
  proof (intro allI impI)
    fix j p s
    assume a: "j < length (sv_zvoid sv) \<and> sv_zvoid sv ! j = (p, s) \<and> p \<noteq> - 1"
    then have "entry_ok (sv_voids sv) (p, s)" using ok by (auto simp: list_all_length)
    with a show "0 \<le> p \<and> nat p < length (sv_voids sv) \<and> 0 \<le> s \<and> nat s < length (sv_voids sv) \<and>
            length (sv_voids sv ! nat p) \<le> length (sv_voids sv ! nat s)"
      by (simp add: entry_ok_def)
  qed
  have 3: "\<forall>j. j < length (sv_zvoid sv) \<and> j \<notin> \<Union> (set ` set (sv_voids sv)) \<longrightarrow>
            sv_zvoid sv ! j = (- 1, - 1)"
    using un by blast
  have 4: "\<forall>i j zv. j < length zv \<and> zv ! j = (- 1, - 1) \<longrightarrow>
            zvoid_assign (sv_voids sv) i j zv = Inr (zv[j := (int i, int i)])"
    by (simp add: zvoid_assign_first)
  from 1 2 3 4 show ?thesis by (intro conjI)
qed

theorem zone_void_map_primary_not_larger_witness:
  "sortVoids_body no_util full_run 1 2 (1 / 5) = Inr (all_lines (Fin (- 1)), Some full_run_sorted) \<and>
   1 < length (sv_zvoid full_run_sorted) \<and> sv_zvoid full_run_sorted ! 1 = (1, 0) \<and> (1 :: int) \<noteq> - 1 \<and>
   length (sv_voids full_run_sorted ! nat 1) \<le> length (sv_voids full_run_sorted ! nat 0) \<and>
   2 < length (sv_zvoid full_run_sorted) \<and> 2 \<notin> \<Union> (set ` set (sv_voids full_run_sorted)) \<and>
   sv_zvoid full_run_sorted ! 2 = (- 1, - 1) \<and>
   zvoid (store full_run full_run_sorted) = Some (sv_zvoid full_run_sorted)"
proof -
  note c = zone_void_map_primary_not_larger[OF full_run_method1]
  have h1: "1 < length (sv_zvoid full_run_sorted) \<and> sv_zvoid full_run_sorted ! 1 = (1, 0) \<and> (1 :: int) \<noteq> - 1"
    by (simp add: full_run_sorted_def)
  have h2: "2 < length (sv_zvoid full_run_sorted) \<and> 2 \<notin> \<Union> (set ` set (sv_voids full_run_sorted))"
    by (simp add: full_run_sorted_def)
  from c[THEN conjunct2, THEN conjunct1, rule_format, OF h1]
  have c1: "length (sv_voids full_run_sorted ! nat 1) \<le> length (sv_voids full_run_sorted ! nat 0)"
    by simp
  from c[THEN conjunct2, THEN conjunct2, THEN conjunct1, rule_format, OF h2]
  have c2: "sv_zvoid full_run_sorted ! 2 = (- 1, - 1)" .
  from c have c3: "zvoid (store full_run full_run_sorted) = Some (sv_zvoid full_run_sorted)"
    by (rule conjunct1)
  show ?thesis using full_run_method1 h1 c1 h2 c2 c3 by (intro conjI) simp_all
qed

end
